theory Spec2Isabelle
  imports Complex_Main "HOL-Library.Word" "HOL-Library.Multiset"
begin

section \<open>Values and errors\<close>

text \<open>
  A grid cell of the NetCDF variable \<open>sst\<close> is a floating-point number that is either
  NaN (land, missing) or a number.  The embedding keeps NaN as a value of its own and
  computes on the numbers with exact real arithmetic: the infinities of the machine
  format are outside the model, and so is its rounding, except in the round trip of the
  binary encoder, where the rounding decides and the encoder is taken with its three
  rounded operations (\<open>encode_cell_f32\<close>).  Every concrete input used below is
  a dyadic rational on which the source's floating-point run gives the same result.
\<close>

datatype sample = NaN | Fin real

datatype error = IndexError | ValueError | HTTPError

text \<open>Element-wise arithmetic of an array with a scalar: NaN propagates.\<close>

fun lift_sample :: "(real \<Rightarrow> real) \<Rightarrow> sample \<Rightarrow> sample" where
  "lift_sample f NaN = NaN"
| "lift_sample f (Fin v) = Fin (f v)"

fun isnan :: "sample \<Rightarrow> bool" where
  "isnan NaN = True"
| "isnan (Fin v) = False"

section \<open>The numpy operations the converters use\<close>

text \<open>\<open>np.where(cond, a, b)\<close> on arrays of one shape.\<close>

definition np_where :: "bool list \<Rightarrow> 'a list \<Rightarrow> 'a list \<Rightarrow> 'a list" where
  "np_where cond a b = map (\<lambda>(c, x, y). if c then x else y) (zip cond (zip a b))"

text \<open>
  \<open>np.argsort(a)\<close>: the indices that sort \<open>a\<close> ascending.  The model sorts the
  indices by insertion on their keys, which keeps equal keys in index order; on
  pairwise distinct keys every sorting permutation is this one (\<open>argsort_unique\<close>
  below), so the choice of numpy's algorithm does not matter there.
\<close>

definition argsort :: "real list \<Rightarrow> nat list" where
  "argsort a = sort_key (\<lambda>i. a ! i) [0..<length a]"

text \<open>
  Indexing with an integer array, \<open>a[idx]\<close>: the elements of \<open>a\<close> at the positions
  \<open>idx\<close>, in that order; an index out of bounds raises IndexError.
\<close>

definition take_idx :: "'a list \<Rightarrow> nat list \<Rightarrow> error + 'a list" where
  "take_idx a idx =
     (if list_all (\<lambda>i. i < length a) idx then Inr (map (\<lambda>i. a ! i) idx)
      else Inl IndexError)"

text \<open>Sequencing of fallible computations over a list: the first error wins.\<close>

fun sequence_err :: "(error + 'a) list \<Rightarrow> error + 'a list" where
  "sequence_err [] = Inr []"
| "sequence_err (x # xs) =
     (case x of
        Inl e \<Rightarrow> Inl e
      | Inr v \<Rightarrow> (case sequence_err xs of Inl e \<Rightarrow> Inl e | Inr vs \<Rightarrow> Inr (v # vs)))"

definition bind_err :: "error + 'a \<Rightarrow> ('a \<Rightarrow> error + 'b) \<Rightarrow> error + 'b" where
  "bind_err m f = (case m of Inl e \<Rightarrow> Inl e | Inr v \<Rightarrow> f v)"

text \<open>
  Subscription \<open>a[i]\<close> with an integer: a negative index counts from the end, an
  index outside the sequence raises IndexError.
\<close>

definition py_getitem :: "'a list \<Rightarrow> int \<Rightarrow> error + 'a" where
  "py_getitem a i =
     (if 0 \<le> i \<and> i < int (length a) then Inr (a ! nat i)
      else if i < 0 \<and> - int (length a) \<le> i then Inr (a ! nat (int (length a) + i))
      else Inl IndexError)"

text \<open>The builtins \<open>min\<close> and \<open>max\<close> raise ValueError on an empty sequence.\<close>

fun py_min :: "real list \<Rightarrow> error + real" where
  "py_min [] = Inl ValueError"
| "py_min (x # xs) = Inr (fold min xs x)"

fun py_max :: "real list \<Rightarrow> error + real" where
  "py_max [] = Inl ValueError"
| "py_max (x # xs) = Inr (fold max xs x)"

text \<open>The slice \<open>a[::step]\<close> for a positive step.\<close>

definition slice_step :: "nat \<Rightarrow> 'a list \<Rightarrow> 'a list" where
  "slice_step step a = map (\<lambda>i. a ! i) (filter (\<lambda>i. i mod step = 0) [0..<length a])"

text \<open>\<open>np.clip(x, lo, hi)\<close> is \<open>minimum(maximum(x, lo), hi)\<close>.\<close>

definition np_clip :: "real \<Rightarrow> real \<Rightarrow> real \<Rightarrow> real" where
  "np_clip x lo hi = min (max x lo) hi"

text \<open>
  \<open>astype(np.uint8)\<close> truncates towards zero and keeps the low eight bits.  The cast
  of NaN is left open by the C standard; numpy gives 0 on the common platforms, and the
  converter overwrites those cells in its next line.
\<close>

definition trunc :: "real \<Rightarrow> int" where
  "trunc x = (if 0 \<le> x then \<lfloor>x\<rfloor> else \<lceil>x\<rceil>)"

fun astype_uint8 :: "sample \<Rightarrow> 8 word" where
  "astype_uint8 NaN = 0"
| "astype_uint8 (Fin x) = word_of_int (trunc x)"

text \<open>\<open>np.round\<close> rounds to the nearest integer, a tie to the even one.\<close>

definition np_round :: "real \<Rightarrow> real" where
  "np_round x =
     (let f = \<lfloor>x\<rfloor>; d = x - of_int f
      in if d < 1 / 2 then of_int f else if 1 / 2 < d then of_int (f + 1)
         else if even f then of_int f else of_int (f + 1))"

text \<open>
  \<open>astype(int)\<close> truncates towards zero into a signed 64-bit integer.  The cast of
  NaN and of a number beyond 64 bits is left open by the C standard; the model gives
  the least 64-bit integer for NaN and leaves the numbers unbounded.
\<close>

fun astype_int :: "sample \<Rightarrow> int" where
  "astype_int NaN = - (2 ^ 63)"
| "astype_int (Fin x) = trunc x"

section \<open>The input and the serialized output\<close>

text \<open>
  The dataset as the NetCDF library hands it over: the coordinate vectors, the
  timestamps as \<open>str\<close> prints them, and the variable \<open>sst(time, lat, lon)\<close>.
\<close>

record dataset =
  ds_lons :: "real list"
  ds_lats :: "real list"
  ds_times :: "string list"
  ds_sst :: "sample list list list"

text \<open>The shape that the library guarantees for a variable over its coordinates.\<close>

definition wf_dataset :: "dataset \<Rightarrow> bool" where
  "wf_dataset ds \<longleftrightarrow>
     length (ds_sst ds) = length (ds_times ds) \<and>
     list_all (\<lambda>frame. length frame = length (ds_lats ds) \<and>
       list_all (\<lambda>row. length row = length (ds_lons ds)) frame) (ds_sst ds)"

text \<open>What \<open>json.dump\<close> receives: numbers, strings, lists and dicts in key order.\<close>

datatype json =
    JInt int
  | JNum real
  | JStr string
  | JArr "json list"
  | JObj "(string \<times> json) list"

fun obj_fields :: "json \<Rightarrow> (string \<times> json) list" where
  "obj_fields (JObj kvs) = kvs"
| "obj_fields j = []"

definition obj_get :: "json \<Rightarrow> string \<Rightarrow> json option" where
  "obj_get j k = map_of (obj_fields j) k"

section \<open>process\_data.py: the binary converter\<close>

definition SST_MIN :: real where "SST_MIN = - 2"
definition SST_MAX :: real where "SST_MAX = 32"
definition SST_RANGE :: real where "SST_RANGE = SST_MAX - SST_MIN"
definition NODATA :: "8 word" where "NODATA = 255"

text \<open>
  Lines 107 to 109 on one cell:
  \<^verbatim>\<open>normalized = (frame - SST_MIN) / SST_RANGE\<close>,
  \<^verbatim>\<open>scaled = np.clip(normalized * 254, 0, 254).astype(np.uint8)\<close>,
  \<^verbatim>\<open>scaled[np.isnan(frame)] = NODATA\<close>.
\<close>

definition normalized :: "sample \<Rightarrow> sample" where
  "normalized c = lift_sample (\<lambda>v. (v - SST_MIN) / SST_RANGE) c"

definition scaled :: "sample \<Rightarrow> 8 word" where
  "scaled c =
     astype_uint8 (lift_sample (\<lambda>x. np_clip x 0 254)
       (lift_sample (\<lambda>n. n * 254) (normalized c)))"

definition encode_cell :: "sample \<Rightarrow> 8 word" where
  "encode_cell c = (if isnan c then NODATA else scaled c)"

text \<open>
  The same three lines as the machine runs them.  The array is float32, so the
  subtraction, the division and the multiplication are each rounded to the format; the
  constants -2, 34 and 254 are numbers of the format, and the clip and the cast are
  exact.  The rounding is the parameter \<open>fl\<close>.  \<open>float32_rounding\<close> is the error
  bound of IEEE 754 rounding to nearest in binary32: on an exact result of magnitude at
  most \<open>2^127\<close> the error is at most the fraction \<open>2^-24\<close> of the result, or
  \<open>2^-150\<close> where the result is subnormal.  Rounding to binary64 is within the same
  bound.  With no rounding, \<open>encode_cell_f32\<close> is \<open>encode_cell\<close>.
\<close>

definition float32_rounding :: "(real \<Rightarrow> real) \<Rightarrow> bool" where
  "float32_rounding fl \<longleftrightarrow>
     (\<forall>x. \<bar>x\<bar> \<le> 2 ^ 127 \<longrightarrow> \<bar>fl x - x\<bar> \<le> \<bar>x\<bar> / 2 ^ 24 + 1 / 2 ^ 150)"

definition normalized_f32 :: "(real \<Rightarrow> real) \<Rightarrow> sample \<Rightarrow> sample" where
  "normalized_f32 fl c = lift_sample (\<lambda>v. fl (fl (v - SST_MIN) / SST_RANGE)) c"

definition scaled_f32 :: "(real \<Rightarrow> real) \<Rightarrow> sample \<Rightarrow> 8 word" where
  "scaled_f32 fl c =
     astype_uint8 (lift_sample (\<lambda>x. np_clip x 0 254)
       (lift_sample (\<lambda>n. fl (n * 254)) (normalized_f32 fl c)))"

definition encode_cell_f32 :: "(real \<Rightarrow> real) \<Rightarrow> sample \<Rightarrow> 8 word" where
  "encode_cell_f32 fl c = (if isnan c then NODATA else scaled_f32 fl c)"

definition lons_converted :: "real list \<Rightarrow> real list" where
  "lons_converted lons = np_where (map (\<lambda>x. 180 < x) lons) (map (\<lambda>x. x - 360) lons) lons"

definition lon_sort :: "real list \<Rightarrow> nat list" where
  "lon_sort lons = argsort (lons_converted lons)"

definition lons_sorted :: "real list \<Rightarrow> error + real list" where
  "lons_sorted lons = take_idx (lons_converted lons) (lon_sort lons)"

definition lat_flip :: "real list \<Rightarrow> nat list" where
  "lat_flip lats = argsort (map uminus lats)"

definition lats_sorted :: "real list \<Rightarrow> error + real list" where
  "lats_sorted lats = take_idx lats (lat_flip lats)"

text \<open>Lines 64 and 65: half the distance of the first two sorted coordinates.\<close>

definition half_cell :: "real list \<Rightarrow> error + real" where
  "half_cell xs =
     bind_err (py_getitem xs 1) (\<lambda>x1.
     bind_err (py_getitem xs 0) (\<lambda>x0.
     Inr (\<bar>x1 - x0\<bar> / 2)))"

definition description :: string where
  "description =
     ''uint8: 0-254 maps to -2'' @ [CHR 0xB0] @ ''C to 32'' @ [CHR 0xB0] @
     ''C, 255 = no data''"

definition bounds :: "real list \<Rightarrow> real list \<Rightarrow> error + json" where
  "bounds lats_s lons_s =
     bind_err (half_cell lons_s) (\<lambda>half_lon.
     bind_err (half_cell lats_s) (\<lambda>half_lat.
     bind_err (py_getitem lats_s 0) (\<lambda>lat_first.
     bind_err (py_getitem lats_s (- 1)) (\<lambda>lat_last.
     bind_err (py_getitem lons_s 0) (\<lambda>lon_first.
     bind_err (py_getitem lons_s (- 1)) (\<lambda>lon_last.
     Inr (JObj
       [(''north'', JNum (lat_first + half_lat)),
        (''south'', JNum (lat_last - half_lat)),
        (''west'', JNum (lon_first - half_lon)),
        (''east'', JNum (lon_last + half_lon))])))))))"

definition metadata :: "dataset \<Rightarrow> error + json" where
  "metadata ds =
     bind_err (py_getitem (ds_times ds) 0) (\<lambda>t_first.
     bind_err (py_getitem (ds_times ds) (- 1)) (\<lambda>t_last.
     bind_err (lons_sorted (ds_lons ds)) (\<lambda>lons_s.
     bind_err (lats_sorted (ds_lats ds)) (\<lambda>lats_s.
     bind_err (bounds lats_s lons_s) (\<lambda>b.
     Inr (JObj
       [(''nlat'', JInt (int (length (ds_lats ds)))),
        (''nlon'', JInt (int (length (ds_lons ds)))),
        (''ntimes'', JInt (int (length (ds_times ds)))),
        (''times'', JArr (map (\<lambda>t. JStr (take 7 t)) (ds_times ds))),
        (''lats'', JArr (map JNum lats_s)),
        (''lons'', JArr (map JNum lons_s)),
        (''bounds'', b),
        (''encoding'', JObj
          [(''min'', JNum SST_MIN),
           (''max'', JNum SST_MAX),
           (''nodata'', JInt (uint NODATA)),
           (''description'', JStr description)])]))))))"

text \<open>
  The body of the loop, lines 100 to 111: \<^verbatim>\<open>frame[:, lon_sort]\<close>, then
  \<^verbatim>\<open>frame[lat_flip, :]\<close>, then the encoding of every cell.
\<close>

definition process_frame :: "nat list \<Rightarrow> nat list \<Rightarrow> sample list list \<Rightarrow> error + 8 word list list" where
  "process_frame lon_idx lat_idx frame =
     bind_err (sequence_err (map (\<lambda>row. take_idx row lon_idx) frame)) (\<lambda>frame1.
     bind_err (take_idx frame1 lat_idx) (\<lambda>frame2.
     Inr (map (map encode_cell) frame2)))"

text \<open>\<open>tofile\<close> writes an array in C order: the last index runs fastest.\<close>

definition tofile :: "8 word list list list \<Rightarrow> 8 word list" where
  "tofile a = concat (map concat a)"

record bin_output =
  metadata_json :: json
  sst_data_bin :: "8 word list"

definition process :: "dataset \<Rightarrow> error + bin_output" where
  "process ds =
     bind_err (metadata ds) (\<lambda>md.
     bind_err (take_idx (ds_sst ds) [0..<length (ds_times ds)]) (\<lambda>frames.
     bind_err (sequence_err
         (map (process_frame (lon_sort (ds_lons ds)) (lat_flip (ds_lats ds))) frames))
       (\<lambda>binary_data.
     Inr \<lparr>metadata_json = md, sst_data_bin = tofile binary_data\<rparr>)))"

text \<open>
  Modelled from the spec: the reader of the binary file is not part of the sources; the
  spec gives its decoding of a sample as \<open>value/254*34 - 2\<close>.
\<close>

definition decode :: "8 word \<Rightarrow> real" where
  "decode u = real (unat u) / 254 * 34 - 2"

section \<open>convert\_to\_json.py: the JSON converter\<close>

definition TIME_STEP :: nat where "TIME_STEP = 1"

definition lons_converted_json :: "real list \<Rightarrow> real list" where
  "lons_converted_json lons = map (\<lambda>lon. if 180 < lon then lon - 360 else lon) lons"

definition sort_idx :: "real list \<Rightarrow> nat list" where
  "sort_idx lons = argsort (lons_converted_json lons)"

definition lons_sorted_json :: "real list \<Rightarrow> error + real list" where
  "lons_sorted_json lons = take_idx (lons_converted_json lons) (sort_idx lons)"

definition metadata_of_json :: "real list \<Rightarrow> real list \<Rightarrow> string list \<Rightarrow> error + json" where
  "metadata_of_json lons lats tms =
     bind_err (lons_sorted_json lons) (\<lambda>lons_s.
     bind_err (py_min lons_s) (\<lambda>minLon.
     bind_err (py_max lons_s) (\<lambda>maxLon.
     bind_err (py_min lats) (\<lambda>minLat.
     bind_err (py_max lats) (\<lambda>maxLat.
     Inr (JObj
       [(''lons'', JArr (map JNum lons_s)),
        (''lats'', JArr (map JNum lats)),
        (''times'', JArr (map (\<lambda>t. JStr (take 7 t)) tms)),
        (''bounds'', JObj
          [(''minLon'', JNum minLon),
           (''maxLon'', JNum maxLon),
           (''minLat'', JNum minLat),
           (''maxLat'', JNum maxLat)]),
        (''valueRange'', JObj [(''min'', JInt (- 2)), (''max'', JInt 32)])]))))))"

text \<open>
  Line 74 on one cell:
  \<^verbatim>\<open>np.where(np.isnan(sst_sorted), -999, np.round(sst_sorted * 100)).astype(int)\<close>.
\<close>

definition sst_int :: "sample \<Rightarrow> int" where
  "sst_int c =
     astype_int (if isnan c then Fin (- 999)
                 else lift_sample np_round (lift_sample (\<lambda>v. v * 100) c))"

definition convert_frame :: "nat list \<Rightarrow> sample list list \<Rightarrow> error + int list list" where
  "convert_frame idx sst_data =
     bind_err (sequence_err (map (\<lambda>row. take_idx row idx) sst_data)) (\<lambda>sst_sorted.
     Inr (map (map sst_int) sst_sorted))"

record json_output =
  metadata_json_file :: json
  all_data :: "int list list list"

definition convert_data :: "dataset \<Rightarrow> error + json_output" where
  "convert_data ds =
     (let tms = slice_step TIME_STEP (ds_times ds);
          sst = slice_step TIME_STEP (ds_sst ds)
      in bind_err (metadata_of_json (ds_lons ds) (ds_lats ds) tms) (\<lambda>md.
         bind_err (take_idx sst [0..<length tms]) (\<lambda>frames.
         bind_err (sequence_err (map (convert_frame (sort_idx (ds_lons ds))) frames)) (\<lambda>data.
         Inr \<lparr>metadata_json_file = md, all_data = data\<rparr>))))"

section \<open>sst\_animated\_map.py: download\_data\<close>

text \<open>
  The function acts on the file system, the network and the terminal.  The state
  holds the files by name, the URLs requested so far and the messages printed; the
  server's answer is a parameter.  A progress line is kept as its two numbers.
\<close>

datatype message =
    Skipping
  | Downloading
  | MayTakeMinutes
  | Progress nat nat
  | Complete

record world =
  files :: "string \<rightharpoonup> 8 word list"
  requested :: "string list"
  printed :: "message list"

record response =
  status_ok :: bool
  content_length :: "nat option"
  chunks :: "8 word list list"

definition DATA_URL :: string where
  "DATA_URL = ''https://downloads.psl.noaa.gov/Datasets/noaa.ersst.v5/sst.mnmean.nc''"

definition DATA_FILE :: string where
  "DATA_FILE = ''sst.mnmean.nc''"

definition path_exists :: "world \<Rightarrow> string \<Rightarrow> bool" where
  "path_exists w p \<longleftrightarrow> files w p \<noteq> None"

definition print_msg :: "message \<Rightarrow> world \<Rightarrow> world" where
  "print_msg m w = w\<lparr>printed := printed w @ [m]\<rparr>"

definition file_append :: "string \<Rightarrow> 8 word list \<Rightarrow> world \<Rightarrow> world" where
  "file_append p bs w =
     w\<lparr>files := (files w)(p \<mapsto> (case files w p of None \<Rightarrow> bs | Some old \<Rightarrow> old @ bs))\<rparr>"

text \<open>The loop of lines 43 to 48, with the count of bytes written so far.\<close>

fun write_chunks :: "nat \<Rightarrow> 8 word list list \<Rightarrow> nat \<Rightarrow> world \<Rightarrow> world" where
  "write_chunks total_size [] downloaded w = w"
| "write_chunks total_size (chunk # rest) downloaded w =
     (let w1 = file_append DATA_FILE chunk w;
          downloaded1 = downloaded + length chunk;
          w2 = (if total_size \<noteq> 0 then print_msg (Progress downloaded1 total_size) w1 else w1)
      in write_chunks total_size rest downloaded1 w2)"

text \<open>The result is the state left behind and the exception raised, if any.\<close>

definition download_data :: "(error + response) \<Rightarrow> world \<Rightarrow> world \<times> error option" where
  "download_data server w =
     (if path_exists w DATA_FILE then (print_msg Skipping w, None)
      else
        let w1 = print_msg MayTakeMinutes (print_msg Downloading w);
            w2 = w1\<lparr>requested := requested w1 @ [DATA_URL]\<rparr>
        in case server of
             Inl e \<Rightarrow> (w2, Some e)
           | Inr resp \<Rightarrow>
               if \<not> status_ok resp then (w2, Some HTTPError)
               else
                 let total_size = (case content_length resp of None \<Rightarrow> 0 | Some n \<Rightarrow> n);
                     w3 = w2\<lparr>files := (files w2)(DATA_FILE \<mapsto> [])\<rparr>;
                     w4 = write_chunks total_size (chunks resp) 0 w3
                 in (print_msg Complete w4, None))"

section \<open>A small dataset\<close>

text \<open>Two longitudes, two latitudes and one month, with one missing cell.\<close>

definition example_ds :: dataset where
  "example_ds =
     \<lparr>ds_lons = [0, 190], ds_lats = [- 1, 1],
      ds_times = [''1854-01-01T00:00:00.000000000''],
      ds_sst = [[[Fin 15, NaN], [Fin 100, Fin (- 5)]]]\<rparr>"

text \<open>The metadata that the JSON converter writes for it.\<close>

definition example_json_metadata :: json where
  "example_json_metadata =
     JObj
       [(''lons'', JArr [JNum (- 170), JNum 0]),
        (''lats'', JArr [JNum (- 1), JNum 1]),
        (''times'', JArr [JStr ''1854-01'']),
        (''bounds'', JObj
          [(''minLon'', JNum (- 170)), (''maxLon'', JNum 0),
           (''minLat'', JNum (- 1)), (''maxLat'', JNum 1)]),
        (''valueRange'', JObj [(''min'', JInt (- 2)), (''max'', JInt 32)])]"

section \<open>Properties of the binary encoder\<close>

lemma scaled_Fin:
  "scaled (Fin v) = word_of_int \<lfloor>min (max ((v + 2) / 34 * 254) 0) 254\<rfloor>"
  by (simp add: scaled_def normalized_def np_clip_def trunc_def SST_MIN_def
      SST_RANGE_def SST_MAX_def)

lemma clipped_floor_bounds:
  fixes x :: real
  shows "0 \<le> \<lfloor>min (max x 0) 254\<rfloor>" and "\<lfloor>min (max x 0) 254\<rfloor> \<le> 254"
proof -
  show "0 \<le> \<lfloor>min (max x 0) 254\<rfloor>" by simp
  have "min (max x 0) 254 \<le> 254" by simp
  then have "\<lfloor>min (max x 0) 254\<rfloor> \<le> \<lfloor>254::real\<rfloor>" by (rule floor_mono)
  then show "\<lfloor>min (max x 0) 254\<rfloor> \<le> 254" by simp
qed

lemma unat_scaled_Fin:
  "unat (scaled (Fin v)) = nat \<lfloor>min (max ((v + 2) / 34 * 254) 0) 254\<rfloor>"
proof -
  let ?k = "\<lfloor>min (max ((v + 2) / 34 * 254) 0) 254\<rfloor>"
  have lo: "0 \<le> ?k" and hi: "?k \<le> 254" by (rule clipped_floor_bounds)+
  have "uint (word_of_int ?k :: 8 word) = ?k mod 256"
    by (simp add: uint_word_of_int)
  also have "\<dots> = ?k" using lo hi by simp
  finally show ?thesis by (simp add: scaled_Fin unat_eq_nat_uint)
qed

lemma encode_cell_Fin: "encode_cell (Fin v) = scaled (Fin v)"
  by (simp add: encode_cell_def)

lemma unat_encode_le: "unat (encode_cell (Fin v)) \<le> 254"
proof -
  have "\<lfloor>min (max ((v + 2) / 34 * 254) 0) 254\<rfloor> \<le> 254"
    by (rule clipped_floor_bounds)
  then have "nat \<lfloor>min (max ((v + 2) / 34 * 254) 0) 254\<rfloor> \<le> 254" by linarith
  then show ?thesis unfolding encode_cell_Fin unat_scaled_Fin .
qed

lemma encode_cell_sentinel:
  "(encode_cell c = NODATA \<longleftrightarrow> c = NaN) \<and> (c \<noteq> NaN \<longrightarrow> unat (encode_cell c) \<le> 254)"
proof (cases c)
  case NaN
  then show ?thesis by (simp add: encode_cell_def)
next
  case (Fin v)
  have le: "unat (encode_cell (Fin v)) \<le> 254" by (rule unat_encode_le)
  have "encode_cell (Fin v) \<noteq> NODATA"
  proof
    assume "encode_cell (Fin v) = NODATA"
    then have "unat (encode_cell (Fin v)) = 255" by (simp add: NODATA_def)
    with le show False by simp
  qed
  with le Fin show ?thesis by simp
qed

text \<open>
  C6: the binary encoder saturates outside its domain: a number below -2 is encoded as
  0 and a number above 32 as 254.
\<close>

theorem encode_saturates:
  "(v < - 2 \<longrightarrow> encode_cell (Fin v) = 0) \<and> (32 < v \<longrightarrow> encode_cell (Fin v) = 254)"
proof (intro conjI impI)
  assume "v < - 2"
  then have "(v + 2) / 34 * 254 \<le> 0" by (simp add: mult_le_0_iff divide_le_0_iff)
  then have "min (max ((v + 2) / 34 * 254) 0) 254 = 0" by simp
  then show "encode_cell (Fin v) = 0" by (simp add: encode_cell_Fin scaled_Fin)
next
  assume "32 < v"
  then have "254 \<le> (v + 2) / 34 * 254" by simp
  then have "min (max ((v + 2) / 34 * 254) 0) 254 = 254" by simp
  then show "encode_cell (Fin v) = 254" by (simp add: encode_cell_Fin scaled_Fin)
qed

theorem encode_saturates_witness:
  "(- 5 :: real) < - 2 \<and> encode_cell (Fin (- 5)) = 0 \<and>
   (32 :: real) < 40 \<and> encode_cell (Fin 40) = 254"
  using encode_saturates [of "- 5"] encode_saturates [of 40] by simp

subsection \<open>The encoder with rounded arithmetic\<close>

lemma encode_cell_f32_exact: "encode_cell_f32 (\<lambda>x. x) c = encode_cell c"
  by (cases c)
    (simp_all add: encode_cell_f32_def encode_cell_def scaled_f32_def scaled_def
      normalized_f32_def normalized_def)

lemma float32_rounding_exact: "float32_rounding (\<lambda>x. x)"
  by (simp add: float32_rounding_def)

lemma scaled_f32_Fin:
  "scaled_f32 fl (Fin v) = word_of_int \<lfloor>min (max (fl (fl (fl (v + 2) / 34) * 254)) 0) 254\<rfloor>"
  by (simp add: scaled_f32_def normalized_f32_def np_clip_def trunc_def SST_MIN_def
      SST_RANGE_def SST_MAX_def)

lemma unat_scaled_f32_Fin:
  "unat (scaled_f32 fl (Fin v)) = nat \<lfloor>min (max (fl (fl (fl (v + 2) / 34) * 254)) 0) 254\<rfloor>"
proof -
  let ?k = "\<lfloor>min (max (fl (fl (fl (v + 2) / 34) * 254)) 0) 254\<rfloor>"
  have lo: "0 \<le> ?k" and hi: "?k \<le> 254" by (rule clipped_floor_bounds)+
  have "uint (word_of_int ?k :: 8 word) = ?k mod 256"
    by (simp add: uint_word_of_int)
  also have "\<dots> = ?k" using lo hi by simp
  finally show ?thesis by (simp add: scaled_f32_Fin unat_eq_nat_uint)
qed

lemma encode_cell_f32_sentinel:
  "(encode_cell_f32 fl c = NODATA \<longleftrightarrow> c = NaN) \<and>
   (c \<noteq> NaN \<longrightarrow> unat (encode_cell_f32 fl c) \<le> 254)"
proof (cases c)
  case NaN
  then show ?thesis by (simp add: encode_cell_f32_def)
next
  case (Fin v)
  have "\<lfloor>min (max (fl (fl (fl (v + 2) / 34) * 254)) 0) 254\<rfloor> \<le> 254"
    by (rule clipped_floor_bounds)
  then have "nat \<lfloor>min (max (fl (fl (fl (v + 2) / 34) * 254)) 0) 254\<rfloor> \<le> 254" by linarith
  then have le: "unat (scaled_f32 fl (Fin v)) \<le> 254" unfolding unat_scaled_f32_Fin .
  have "scaled_f32 fl (Fin v) \<noteq> NODATA"
  proof
    assume "scaled_f32 fl (Fin v) = NODATA"
    then have "unat (scaled_f32 fl (Fin v)) = 255" by (simp add: NODATA_def)
    with le show False by simp
  qed
  with le Fin show ?thesis by (simp add: encode_cell_f32_def)
qed

lemma rounding_error:
  assumes "float32_rounding fl" and "\<bar>x\<bar> \<le> B" and "B \<le> 2 ^ 127"
  shows "\<bar>fl x - x\<bar> \<le> (B + 1) / 2 ^ 24"
proof -
  from assms(2,3) have "\<bar>x\<bar> \<le> 2 ^ 127" by linarith
  with assms(1) have "\<bar>fl x - x\<bar> \<le> \<bar>x\<bar> / 2 ^ 24 + 1 / 2 ^ 150"
    by (simp add: float32_rounding_def)
  moreover have "\<bar>x\<bar> / 2 ^ 24 \<le> B / 2 ^ 24" using assms(2) by (simp add: divide_right_mono)
  moreover have "(1 :: real) / 2 ^ 150 \<le> 1 / 2 ^ 24" by simp
  ultimately have "\<bar>fl x - x\<bar> \<le> B / 2 ^ 24 + 1 / 2 ^ 24" by linarith
  then show ?thesis by (simp add: add_divide_distrib)
qed

lemma three_roundings:
  assumes R: "float32_rounding fl" and a0: "0 \<le> a" and a1: "a \<le> 34"
  shows "\<bar>fl (fl (fl a / 34) * 254) - a / 34 * 254\<bar> \<le> 1 / 8192"
proof -
  have "\<bar>a\<bar> \<le> 34" using a0 a1 by simp
  then have "\<bar>fl a - a\<bar> \<le> (34 + 1) / 2 ^ 24" using R by (intro rounding_error) simp_all
  then have e1: "\<bar>fl a - a\<bar> \<le> 35 / 16777216" by simp
  then have b: "\<bar>fl a / 34\<bar> \<le> 2" using a0 a1 by linarith
  then have "\<bar>fl (fl a / 34) - fl a / 34\<bar> \<le> (2 + 1) / 2 ^ 24"
    using R by (intro rounding_error) simp_all
  then have e2: "\<bar>fl (fl a / 34) - fl a / 34\<bar> \<le> 3 / 16777216" by simp
  from e1 e2 have e2': "\<bar>fl (fl a / 34) - a / 34\<bar> \<le> 5 / 16777216" by linarith
  define c where "c = fl (fl a / 34) * 254"
  from e2' have e3: "\<bar>c - a / 34 * 254\<bar> \<le> 1270 / 16777216" unfolding c_def by linarith
  then have "\<bar>c\<bar> \<le> 255" using a0 a1 by linarith
  then have "\<bar>fl c - c\<bar> \<le> (255 + 1) / 2 ^ 24" using R by (intro rounding_error) simp_all
  then have e4: "\<bar>fl c - c\<bar> \<le> 256 / 16777216" by simp
  from e3 e4 have "\<bar>fl c - a / 34 * 254\<bar> \<le> 1 / 8192" by linarith
  then show ?thesis unfolding c_def .
qed


lemma decode_encode_f32:
  "decode (encode_cell_f32 fl (Fin v)) =
     of_int \<lfloor>min (max (fl (fl (fl (v + 2) / 34) * 254)) 0) 254\<rfloor> / 254 * 34 - 2"
proof -
  let ?k = "\<lfloor>min (max (fl (fl (fl (v + 2) / 34) * 254)) 0) 254\<rfloor>"
  have "0 \<le> ?k" by (rule clipped_floor_bounds)
  then have "real (nat ?k) = of_int ?k" by simp
  then have "real (unat (scaled_f32 fl (Fin v))) = of_int ?k"
    unfolding unat_scaled_f32_Fin .
  then show ?thesis by (simp add: decode_def encode_cell_f32_def)
qed

text \<open>
  Whatever the rounding within the bound, a value from 33 to 1000 is encoded as 254, as in
  exact arithmetic.
\<close>

lemma saturates_under_rounding:
  assumes R: "float32_rounding fl" and lo: "33 \<le> v" and hi: "v \<le> 1000"
  shows "encode_cell_f32 fl (Fin v) = 254"
proof -
  have "\<bar>v + 2\<bar> \<le> 1002" using lo hi by simp
  then have "\<bar>fl (v + 2) - (v + 2)\<bar> \<le> (1002 + 1) / 2 ^ 24"
    using R by (intro rounding_error) simp_all
  then have e1: "\<bar>fl (v + 2) - (v + 2)\<bar> \<le> 1003 / 16777216" by simp
  then have b: "\<bar>fl (v + 2) / 34\<bar> \<le> 30" using lo hi by linarith
  then have "\<bar>fl (fl (v + 2) / 34) - fl (v + 2) / 34\<bar> \<le> (30 + 1) / 2 ^ 24"
    using R by (intro rounding_error) simp_all
  then have e2: "\<bar>fl (fl (v + 2) / 34) - fl (v + 2) / 34\<bar> \<le> 31 / 16777216" by simp
  define c where "c = fl (fl (v + 2) / 34) * 254"
  from e1 e2 lo hi have c1: "258 \<le> c" and c2: "c \<le> 7620" unfolding c_def by linarith+
  then have "\<bar>c\<bar> \<le> 7620" by simp
  then have "\<bar>fl c - c\<bar> \<le> (7620 + 1) / 2 ^ 24" using R by (intro rounding_error) simp_all
  then have "\<bar>fl c - c\<bar> \<le> 7621 / 16777216" by simp
  with c1 have "254 \<le> fl c" by linarith
  then have "min (max (fl c) 0) 254 = 254" by simp
  then have "\<lfloor>min (max (fl (fl (fl (v + 2) / 34) * 254)) 0) 254\<rfloor> = 254"
    unfolding c_def by simp
  then show ?thesis by (simp add: encode_cell_f32_def scaled_f32_Fin)
qed

text \<open>
  A rounding within the bound that rounds every result toward zero by the fraction
  \<open>2^-24\<close>: the value 15, whose exact scaled value is 127, is encoded as 126.
\<close>

lemma example_rounding: "float32_rounding (\<lambda>x. x - x / 16777216)"
  by (simp add: float32_rounding_def)

lemma example_rounded_code: "encode_cell_f32 (\<lambda>x. x - x / 16777216) (Fin 15) = 126"
  by (simp add: encode_cell_f32_def scaled_f32_Fin)

subsection \<open>The round trip\<close>

text \<open>
  C1 as stated, for every cell that is not NaN, fails: 100 is encoded as 254, which
  decodes to 32, and 68 is more than the step 34/254.  The three operations are exact
  on this input, and by \<open>saturates_under_rounding\<close> no rounding within the bound
  changes the code.
\<close>

theorem roundtrip_counterexample:
  "\<not> \<bar>100 - decode (encode_cell (Fin 100))\<bar> \<le> 34 / 254"
  by (simp add: encode_cell_Fin scaled_Fin decode_def)

text \<open>
  C1, amended: for every source value v from -2 to 32, and every rounding of the three
  operations within the float32 error bound, the code of v decodes to a value within one
  step 34/254 of v, up to the rounding: v minus the decoded value is at least minus
  1/8192 of a step and less than one step plus 1/8192 of a step.
\<close>

theorem roundtrip_in_domain:
  assumes R: "float32_rounding fl" and lo: "- 2 \<le> v" and hi: "v \<le> 32"
  shows "- (34 / 254) / 8192 \<le> v - decode (encode_cell_f32 fl (Fin v)) \<and>
         v - decode (encode_cell_f32 fl (Fin v)) < 34 / 254 + (34 / 254) / 8192"
proof -
  define c where "c = fl (fl (fl (v + 2) / 34) * 254)"
  define x where "x = (v + 2) / 34 * 254"
  define k where "k = \<lfloor>min (max c 0) 254\<rfloor>"
  have "0 \<le> v + 2" and "v + 2 \<le> 34" using lo hi by simp_all
  then have "\<bar>fl (fl (fl (v + 2) / 34) * 254) - (v + 2) / 34 * 254\<bar> \<le> 1 / 8192"
    by (rule three_roundings [OF R])
  then have e: "\<bar>c - x\<bar> \<le> 1 / 8192" unfolding c_def x_def .
  have x0: "0 \<le> x" and x1: "x \<le> 254" using lo hi unfolding x_def by simp_all
  from e x0 x1 have cl: "\<bar>min (max c 0) 254 - x\<bar> \<le> 1 / 8192" by linarith
  have k1: "of_int k \<le> min (max c 0) 254" unfolding k_def by (rule of_int_floor_le)
  have k2: "min (max c 0) 254 < of_int k + 1" unfolding k_def by linarith
  from cl k1 have a: "- (1 / 8192) \<le> x - of_int k" by linarith
  from cl k2 have b: "x - of_int k < 1 + 1 / 8192" by linarith
  have d: "decode (encode_cell_f32 fl (Fin v)) = of_int k / 254 * 34 - 2"
    unfolding k_def c_def by (rule decode_encode_f32)
  have v: "v = x / 254 * 34 - 2" unfolding x_def by (simp add: add_divide_distrib)
  have "v - decode (encode_cell_f32 fl (Fin v)) = (x - of_int k) * (34 / 254)"
    unfolding d by (subst v) (simp add: field_simps)
  moreover from a have "- (34 / 254) / 8192 \<le> (x - of_int k) * (34 / 254)" by simp
  moreover from b have "(x - of_int k) * (34 / 254) < 34 / 254 + (34 / 254) / 8192" by simp
  ultimately show ?thesis by simp
qed

theorem roundtrip_in_domain_witness:
  "float32_rounding (\<lambda>x. x - x / 16777216) \<and> (- 2 :: real) \<le> 15 \<and> (15 :: real) \<le> 32 \<and>
   encode_cell_f32 (\<lambda>x. x - x / 16777216) (Fin 15) = 126 \<and>
   - (34 / 254) / 8192 \<le> 15 - decode (encode_cell_f32 (\<lambda>x. x - x / 16777216) (Fin 15)) \<and>
   15 - decode (encode_cell_f32 (\<lambda>x. x - x / 16777216) (Fin 15)) < 34 / 254 + (34 / 254) / 8192"
  using roundtrip_in_domain [of "\<lambda>x. x - x / 16777216" 15] example_rounding example_rounded_code
  by simp

section \<open>Sorting the coordinates\<close>

lemma np_where_map:
  "np_where (map P xs) (map f xs) xs = map (\<lambda>x. if P x then f x else x) xs"
  by (induction xs) (simp_all add: np_where_def)

lemma lons_converted_eq: "lons_converted lons = lons_converted_json lons"
  by (simp add: lons_converted_def lons_converted_json_def np_where_map)

lemma lon_sort_eq: "lon_sort lons = sort_idx lons"
  by (simp add: lon_sort_def sort_idx_def lons_converted_eq)

lemma length_lons_converted_json [simp]: "length (lons_converted_json lons) = length lons"
  by (simp add: lons_converted_json_def)

lemma length_argsort [simp]: "length (argsort a) = length a"
  by (simp add: argsort_def)

lemma set_argsort [simp]: "set (argsort a) = {0..<length a}"
  by (simp add: argsort_def)

lemma distinct_argsort [simp]: "distinct (argsort a)"
  by (simp add: argsort_def)

lemma mset_argsort: "mset (argsort a) = mset [0..<length a]"
  by (simp add: argsort_def)

lemma take_idx_in_range:
  "set idx \<subseteq> {0..<length a} \<Longrightarrow> take_idx a idx = Inr (map (\<lambda>i. a ! i) idx)"
  by (auto simp: take_idx_def list_all_iff)

lemma take_idx_argsort: "take_idx a (argsort a) = Inr (map (\<lambda>i. a ! i) (argsort a))"
  by (rule take_idx_in_range) simp

lemma sorted_argsort: "sorted (map (\<lambda>i. a ! i) (argsort a))"
  by (simp add: argsort_def)

lemma distinct_keys_argsort:
  assumes "distinct a"
  shows "distinct (map (\<lambda>i. a ! i) (argsort a))"
proof -
  have "inj_on (\<lambda>i. a ! i) (set (argsort a))"
    using assms by (intro inj_on_nth) simp_all
  then show ?thesis by (simp add: distinct_map)
qed

lemma strict_sorted_argsort:
  "distinct a \<Longrightarrow> sorted_wrt (<) (map (\<lambda>i. a ! i) (argsort a))"
  by (simp add: strict_sorted_iff sorted_argsort distinct_keys_argsort)

lemma perm_stable_if_distinct:
  assumes d: "distinct a" and p: "mset p = mset [0..<length a]"
    and ij: "i < j" "j < length p" and eq: "a ! (p ! i) = a ! (p ! j)"
  shows "p ! i < p ! j"
proof -
  have sp: "set p = {0..<length a}" using p by (metis mset_eq_setD set_upt)
  have dp: "distinct p" using p by (metis distinct_upt mset_eq_imp_distinct_iff)
  have "p ! i \<in> set p" "p ! j \<in> set p" using ij by simp_all
  then have "p ! i < length a" "p ! j < length a" using sp by simp_all
  with d eq have "p ! i = p ! j" by (simp add: nth_eq_iff_index_eq)
  with dp ij have "i = j" by (simp add: nth_eq_iff_index_eq)
  with ij show ?thesis by simp
qed

lemma argsort_unique:
  assumes d: "distinct a" and p: "mset p = mset [0..<length a]"
    and s: "sorted (map (\<lambda>i. a ! i) p)"
  shows "p = argsort a"
proof -
  have sp: "set p = {0..<length a}" using p by (metis mset_eq_setD set_upt)
  have dp: "distinct p" using p by (metis distinct_upt mset_eq_imp_distinct_iff)
  have inj: "inj_on (\<lambda>i. a ! i) {0..<length a}"
    using d by (intro inj_on_nth) simp_all
  have "distinct (map (\<lambda>i. a ! i) p)" using dp inj sp by (simp add: distinct_map)
  moreover have "set (map (\<lambda>i. a ! i) p) = set (map (\<lambda>i. a ! i) (argsort a))"
    using sp by simp
  ultimately have eq: "map (\<lambda>i. a ! i) p = map (\<lambda>i. a ! i) (argsort a)"
    using s sorted_argsort [of a] distinct_keys_argsort [OF d]
    by (intro sorted_distinct_set_unique) simp_all
  have "inj_on (\<lambda>i. a ! i) (set p \<union> set (argsort a))" using inj sp by simp
  then show ?thesis using eq by (simp add: inj_on_map_eq_map)
qed

lemma distinct_lons_converted_json:
  assumes "distinct lons" and "\<forall>x\<in>set lons. 0 \<le> x \<and> x < 360"
  shows "distinct (lons_converted_json lons)"
proof -
  have "inj_on (\<lambda>lon. if 180 < lon then lon - 360 else lon) (set lons)"
  proof (rule inj_onI)
    fix x y :: real
    assume x: "x \<in> set lons" and y: "y \<in> set lons"
      and eq: "(if 180 < x then x - 360 else x) = (if 180 < y then y - 360 else y)"
    from x y assms(2) have "0 \<le> x" "x < 360" "0 \<le> y" "y < 360" by simp_all
    with eq show "x = y" by (simp split: if_splits)
  qed
  with assms(1) show ?thesis by (simp add: lons_converted_json_def distinct_map)
qed

section \<open>Fallible steps and the flat layout\<close>

lemma bind_err_Inr: "bind_err m f = Inr y \<longleftrightarrow> (\<exists>v. m = Inr v \<and> f v = Inr y)"
  by (cases m) (simp_all add: bind_err_def)

lemma bind_err_Inr_simp [simp]: "bind_err (Inr v) f = f v"
  by (simp add: bind_err_def)

lemma take_idx_Inr:
  "take_idx a idx = Inr r \<longleftrightarrow> (\<forall>i\<in>set idx. i < length a) \<and> r = map (\<lambda>i. a ! i) idx"
  by (auto simp: take_idx_def list_all_iff)

lemma sequence_err_all_Inr: "sequence_err (map Inr ys) = Inr ys"
  by (induction ys) simp_all

lemma sequence_err_Inr_D: "sequence_err xs = Inr ys \<Longrightarrow> xs = map Inr ys"
  by (induction xs arbitrary: ys) (auto split: sum.splits)

lemma sequence_err_Inr: "sequence_err xs = Inr ys \<longleftrightarrow> xs = map Inr ys"
  using sequence_err_all_Inr sequence_err_Inr_D by blast

lemma sequence_err_map_Inr:
  "(\<forall>x\<in>set xs. f x = Inr (g x)) \<Longrightarrow> sequence_err (map f xs) = Inr (map g xs)"
  by (simp add: sequence_err_Inr)

lemma sequence_err_map_eq:
  assumes "sequence_err (map f xs) = Inr ys"
  shows "length ys = length xs" and "k < length xs \<Longrightarrow> f (xs ! k) = Inr (ys ! k)"
proof -
  from assms have eq: "map f xs = map Inr ys" by (simp add: sequence_err_Inr)
  then show len: "length ys = length xs" by (metis length_map)
  assume "k < length xs"
  with eq len show "f (xs ! k) = Inr (ys ! k)" by (metis nth_map)
qed

lemma concat_uniform_length:
  "\<forall>xs\<in>set xss. length xs = n \<Longrightarrow> length (concat xss) = length xss * n"
  by (induction xss) simp_all

lemma concat_uniform_nth:
  "\<forall>xs\<in>set xss. length xs = n \<Longrightarrow> i < length xss \<Longrightarrow> j < n \<Longrightarrow>
   concat xss ! (i * n + j) = xss ! i ! j"
proof (induction xss arbitrary: i)
  case Nil
  then show ?case by simp
next
  case (Cons xs xss)
  show ?case
  proof (cases i)
    case 0
    with Cons.prems show ?thesis by (simp add: nth_append)
  next
    case (Suc i')
    with Cons.prems have "concat xss ! (i' * n + j) = xss ! i' ! j"
      by (intro Cons.IH) simp_all
    moreover have "Suc i' * n + j = length xs + (i' * n + j)" using Cons.prems by simp
    ultimately show ?thesis using Suc by (simp only: concat.simps nth_append_length_plus nth_Cons_Suc)
  qed
qed

lemma process_frame_Inr:
  assumes "process_frame lon_idx lat_idx frame = Inr rows"
  shows "rows = map (\<lambda>i. map (\<lambda>j. encode_cell (frame ! i ! j)) lon_idx) lat_idx"
proof -
  from assms obtain frame1 frame2 where
    f1: "sequence_err (map (\<lambda>row. take_idx row lon_idx) frame) = Inr frame1" and
    f2: "take_idx frame1 lat_idx = Inr frame2" and
    r: "rows = map (map encode_cell) frame2"
    by (auto simp: process_frame_def bind_err_Inr)
  from f2 have la: "\<forall>i\<in>set lat_idx. i < length frame1"
    and frame2: "frame2 = map (\<lambda>i. frame1 ! i) lat_idx"
    by (simp_all add: take_idx_Inr)
  have len: "length frame1 = length frame" using f1 by (rule sequence_err_map_eq)
  have row: "frame1 ! i = map (\<lambda>j. frame ! i ! j) lon_idx" if "i < length frame" for i
  proof -
    from f1 that have "take_idx (frame ! i) lon_idx = Inr (frame1 ! i)"
      by (rule sequence_err_map_eq)
    then show ?thesis by (simp add: take_idx_Inr)
  qed
  show ?thesis
    unfolding r frame2 using la len row by (simp add: comp_def)
qed

lemma process_frame_total:
  assumes "\<forall>row\<in>set frame. set lon_idx \<subseteq> {0..<length row}"
    and "set lat_idx \<subseteq> {0..<length frame}"
  shows "\<exists>rows. process_frame lon_idx lat_idx frame = Inr rows"
proof -
  have "sequence_err (map (\<lambda>row. take_idx row lon_idx) frame)
        = Inr (map (\<lambda>row. map (\<lambda>i. row ! i) lon_idx) frame)"
    using assms(1) by (intro sequence_err_map_Inr) (simp add: take_idx_in_range)
  moreover have "take_idx (map (\<lambda>row. map (\<lambda>i. row ! i) lon_idx) frame) lat_idx
        = Inr (map (\<lambda>i. (map (\<lambda>row. map (\<lambda>i. row ! i) lon_idx) frame) ! i) lat_idx)"
    using assms(2) by (intro take_idx_in_range) simp
  ultimately show ?thesis by (simp add: process_frame_def)
qed

section \<open>Longitude reordering\<close>

lemma lons_sorted_json_Inr:
  "lons_sorted_json lons = Inr (map (\<lambda>i. lons_converted_json lons ! i) (sort_idx lons))"
  by (simp add: lons_sorted_json_def sort_idx_def take_idx_argsort)

lemma lons_sorted_eq: "lons_sorted lons = lons_sorted_json lons"
  by (simp add: lons_sorted_def lons_sorted_json_def lons_converted_eq lon_sort_eq)

text \<open>
  C4: for pairwise distinct longitudes in [0, 360) the converted values are pairwise
  distinct, the argsort is a permutation of the indices that keeps equal keys in index
  order, and the reordered longitudes are strictly ascending, in both converters.
\<close>

theorem lon_reorder_strictly_ascending:
  assumes "distinct lons" and "\<forall>x\<in>set lons. 0 \<le> x \<and> x < 360"
  shows "distinct (lons_converted lons) \<and>
         mset (lon_sort lons) = mset [0..<length lons] \<and>
         (\<forall>i j. i < j \<and> j < length (lon_sort lons) \<and>
            lons_converted lons ! (lon_sort lons ! i) = lons_converted lons ! (lon_sort lons ! j)
            \<longrightarrow> lon_sort lons ! i < lon_sort lons ! j) \<and>
         (\<exists>s. lons_sorted lons = Inr s \<and> lons_sorted_json lons = Inr s \<and>
            s = map (\<lambda>i. lons_converted lons ! i) (lon_sort lons) \<and> sorted_wrt (<) s)"
proof -
  let ?c = "lons_converted lons"
  have d: "distinct ?c"
    using assms by (simp add: lons_converted_eq distinct_lons_converted_json)
  have len: "length ?c = length lons" by (simp add: lons_converted_eq)
  have p: "mset (lon_sort lons) = mset [0..<length ?c]"
    unfolding lon_sort_def by (rule mset_argsort)
  have st: "lon_sort lons ! i < lon_sort lons ! j"
    if "i < j" "j < length (lon_sort lons)"
      "?c ! (lon_sort lons ! i) = ?c ! (lon_sort lons ! j)" for i j
    using d p that by (rule perm_stable_if_distinct)
  have s1: "lons_sorted lons = Inr (map (\<lambda>i. ?c ! i) (lon_sort lons))"
    by (simp add: lons_sorted_eq lons_sorted_json_Inr lons_converted_eq lon_sort_eq)
  have s2: "sorted_wrt (<) (map (\<lambda>i. ?c ! i) (lon_sort lons))"
    unfolding lon_sort_def using d by (rule strict_sorted_argsort)
  from d p len st s1 s2 show ?thesis by (simp add: lons_sorted_eq [symmetric])
qed

theorem lon_reorder_strictly_ascending_witness:
  "distinct [0, 90, 190, 350 :: real] \<and> list_all (\<lambda>x. 0 \<le> x \<and> x < 360) [0, 90, 190, 350 :: real] \<and>
   lons_converted [0, 90, 190, 350] = [0, 90, - 170, - 10] \<and>
   lon_sort [0, 90, 190, 350] = [2, 3, 0, 1] \<and>
   lons_sorted [0, 90, 190, 350] = Inr [- 170, - 10, 0, 90] \<and>
   (\<exists>s. lons_sorted [0, 90, 190, 350] = Inr s \<and> sorted_wrt (<) s)"
proof -
  have h1: "distinct [0, 90, 190, 350 :: real]" by simp
  have h2: "\<forall>x\<in>set [0, 90, 190, 350 :: real]. 0 \<le> x \<and> x < 360" by simp
  have c: "lons_converted [0, 90, 190, 350] = [0, 90, - 170, - 10]"
    by (simp add: lons_converted_def np_where_def)
  have a: "lon_sort [0, 90, 190, 350] = [2, 3, 0, 1]"
    by (simp add: lon_sort_def c argsort_def upt_rec)
  have s: "lons_sorted [0, 90, 190, 350] = Inr [- 170, - 10, 0, 90]"
    by (simp add: lons_sorted_def c a take_idx_def)
  have h3: "list_all (\<lambda>x. 0 \<le> x \<and> x < 360) [0, 90, 190, 350 :: real]" by simp
  from lon_reorder_strictly_ascending [OF h1 h2] h1 h3 c a s show ?thesis by blast
qed

text \<open>
  C9: for pairwise distinct longitudes the JSON converter (a comprehension with a
  conditional, then argsort) and the binary converter (\<open>np.where\<close>, then argsort)
  compute the same permutation and the same sorted longitude list.
\<close>

theorem lon_sort_converters_agree:
  assumes "distinct lons"
  shows "lon_sort lons = sort_idx lons \<and> lons_sorted lons = lons_sorted_json lons \<and>
         (\<exists>s. lons_sorted_json lons = Inr s)"
  using assms by (simp add: lon_sort_eq lons_sorted_eq lons_sorted_json_Inr)

theorem lon_sort_converters_agree_witness:
  "distinct [10, 200, 0 :: real] \<and> lon_sort [10, 200, 0] = [1, 2, 0] \<and> sort_idx [10, 200, 0] = [1, 2, 0] \<and>
   lons_sorted [10, 200, 0] = Inr [- 160, 0, 10] \<and> lons_sorted_json [10, 200, 0] = Inr [- 160, 0, 10]"
proof -
  have h: "distinct [10, 200, 0 :: real]" by simp
  have c: "lons_converted_json [10, 200, 0] = [10, - 160, 0]"
    by (simp add: lons_converted_json_def)
  have a: "sort_idx [10, 200, 0] = [1, 2, 0]"
    by (simp add: sort_idx_def c argsort_def upt_rec)
  have s: "lons_sorted_json [10, 200, 0] = Inr [- 160, 0, 10]"
    by (simp add: lons_sorted_json_def c a take_idx_def)
  from lon_sort_converters_agree [OF h] h a s show ?thesis by simp
qed

section \<open>download\_data\<close>

text \<open>
  C10: when the data file exists, \<open>download_data\<close> returns at once: it prints one
  message, requests nothing from the network and leaves every file as it was.
\<close>

theorem download_skips_existing:
  assumes "path_exists w DATA_FILE"
  shows "download_data server w = (print_msg Skipping w, None) \<and>
         files (fst (download_data server w)) = files w \<and>
         requested (fst (download_data server w)) = requested w \<and>
         snd (download_data server w) = None"
  using assms by (simp add: download_data_def print_msg_def)

theorem download_skips_existing_witness:
  "path_exists \<lparr>files = [DATA_FILE \<mapsto> [1, 2]], requested = [], printed = []\<rparr> DATA_FILE \<and>
   download_data (Inr \<lparr>status_ok = True, content_length = Some 3, chunks = [[7, 8, 9]]\<rparr>)
     \<lparr>files = [DATA_FILE \<mapsto> [1, 2]], requested = [], printed = []\<rparr>
   = (\<lparr>files = [DATA_FILE \<mapsto> [1, 2]], requested = [], printed = [Skipping]\<rparr>, None)"
proof -
  have h: "path_exists \<lparr>files = [DATA_FILE \<mapsto> [1, 2]], requested = [], printed = []\<rparr> DATA_FILE"
    by (simp add: path_exists_def)
  from download_skips_existing [OF h, of "Inr \<lparr>status_ok = True, content_length = Some 3, chunks = [[7, 8, 9]]\<rparr>"] h
  show ?thesis by (simp add: print_msg_def)
qed

lemma download_fetches_missing:
  "download_data (Inr \<lparr>status_ok = True, content_length = Some 3, chunks = [[7, 8], [9]]\<rparr>)
     \<lparr>files = Map.empty, requested = [], printed = []\<rparr>
   = (\<lparr>files = [DATA_FILE \<mapsto> [7, 8, 9]], requested = [DATA_URL],
       printed = [Downloading, MayTakeMinutes, Progress 2 3, Progress 3 3, Complete]\<rparr>, None)"
  by (simp add: download_data_def path_exists_def print_msg_def file_append_def Let_def)

lemma sst_int_Fin: "sst_int (Fin v) = trunc (np_round (v * 100))"
  by (simp add: sst_int_def)

lemma np_round_mono_bounds:
  assumes "of_int a \<le> x" and "x \<le> of_int b"
  shows "of_int a \<le> np_round x \<and> np_round x \<le> of_int b"
proof -
  let ?f = "\<lfloor>x\<rfloor>"
  have fa: "a \<le> ?f" using assms(1) by (simp add: le_floor_iff)
  have fb: "?f \<le> b" using assms(2) by (simp add: floor_le_iff)
  have up: "?f + 1 \<le> b" if "x \<noteq> of_int ?f"
  proof -
    from that have "of_int ?f < x" using of_int_floor_le [of x] by linarith
    with assms(2) have "of_int ?f < (of_int b :: real)" by linarith
    then show ?thesis by simp
  qed
  have cases: "np_round x = of_int ?f \<or> (np_round x = of_int (?f + 1) \<and> x \<noteq> of_int ?f)"
    by (auto simp: np_round_def Let_def)
  then show ?thesis
  proof
    assume "np_round x = of_int ?f"
    with fa fb show ?thesis by simp
  next
    assume h: "np_round x = of_int (?f + 1) \<and> x \<noteq> of_int ?f"
    then have "?f + 1 \<le> b" using up by simp
    moreover have "a \<le> ?f + 1" using fa by simp
    ultimately show ?thesis using h by (simp only: of_int_le_iff) 
  qed
qed

section \<open>The JSON encoder and its sentinel\<close>

lemma np_round_is_int: "\<exists>k. np_round x = of_int k"
proof -
  have "np_round x = of_int \<lfloor>x\<rfloor> \<or> np_round x = of_int (\<lfloor>x\<rfloor> + 1)"
    by (simp add: np_round_def Let_def)
  then show ?thesis by blast
qed

lemma trunc_of_int [simp]: "trunc (of_int k) = k"
  by (simp add: trunc_def)

lemma sst_int_in_range:
  assumes "- 2 \<le> v" and "v \<le> 32"
  shows "- 200 \<le> sst_int (Fin v) \<and> sst_int (Fin v) \<le> 3200"
proof -
  obtain k where k: "np_round (v * 100) = of_int k" using np_round_is_int by blast
  have "of_int (- 200) \<le> v * 100" "v * 100 \<le> of_int 3200" using assms by simp_all
  then have "of_int (- 200) \<le> np_round (v * 100) \<and> np_round (v * 100) \<le> of_int 3200"
    by (rule np_round_mono_bounds)
  then have "- 200 \<le> k \<and> k \<le> 3200" unfolding k of_int_le_iff .
  then show ?thesis by (simp add: sst_int_Fin k)
qed

text \<open>
  C3 as stated fails for the JSON converter: -9.9921875 is not NaN, and a hundred times
  it, -999.21875, rounds to the sentinel -999.
\<close>

theorem json_sentinel_counterexample:
  "Fin (- 1279 / 128) \<noteq> NaN \<and> sst_int (Fin (- 1279 / 128)) = - 999"
  by (simp add: sst_int_def np_round_def trunc_def Let_def)

text \<open>
  C3, amended: the binary encoder gives every cell that is not NaN a code from 0 to 254,
  never the sentinel 255; the JSON encoder gives every value of the declared value
  range, from -2 to 32, an integer from -200 to 3200, never the sentinel -999.
\<close>

theorem sentinel_not_produced_in_range:
  "(c \<noteq> NaN \<longrightarrow> unat (encode_cell c) \<le> 254 \<and> encode_cell c \<noteq> NODATA) \<and>
   (- 2 \<le> v \<and> v \<le> 32 \<longrightarrow>
      - 200 \<le> sst_int (Fin v) \<and> sst_int (Fin v) \<le> 3200 \<and> sst_int (Fin v) \<noteq> - 999)"
proof (intro conjI impI)
  assume "c \<noteq> NaN"
  then obtain x where c: "c = Fin x" by (cases c) simp_all
  have le: "unat (encode_cell (Fin x)) \<le> 254" by (rule unat_encode_le)
  then show "unat (encode_cell c) \<le> 254" by (simp add: c)
  show "encode_cell c \<noteq> NODATA"
  proof
    assume "encode_cell c = NODATA"
    then have "unat (encode_cell (Fin x)) = 255" by (simp add: c NODATA_def)
    with le show False by simp
  qed
next
  assume "- 2 \<le> v \<and> v \<le> 32"
  then have r: "- 200 \<le> sst_int (Fin v) \<and> sst_int (Fin v) \<le> 3200"
    by (intro sst_int_in_range) simp_all
  then show "- 200 \<le> sst_int (Fin v)" "sst_int (Fin v) \<le> 3200" "sst_int (Fin v) \<noteq> - 999"
    by simp_all
qed

theorem sentinel_not_produced_in_range_witness:
  "Fin 15 \<noteq> NaN \<and> unat (encode_cell (Fin 15)) \<le> 254 \<and> encode_cell (Fin 15) \<noteq> NODATA \<and>
   (- 2 :: real) \<le> 15 \<and> (15 :: real) \<le> 32 \<and> sst_int (Fin 15) = 1500 \<and>
   - 200 \<le> sst_int (Fin 15) \<and> sst_int (Fin 15) \<le> 3200 \<and> sst_int (Fin 15) \<noteq> - 999"
proof -
  have e: "sst_int (Fin 15) = 1500" by (simp add: sst_int_def np_round_def trunc_def Let_def)
  from sentinel_not_produced_in_range [of "Fin 15" 15] e show ?thesis by simp
qed


section \<open>The binary file\<close>

lemma length_lon_sort [simp]: "length (lon_sort lons) = length lons"
  by (simp add: lon_sort_eq sort_idx_def)

lemma length_lat_flip [simp]: "length (lat_flip lats) = length lats"
  by (simp add: lat_flip_def)

lemma set_lon_sort [simp]: "set (lon_sort lons) = {0..<length lons}"
  by (simp add: lon_sort_eq sort_idx_def)

lemma set_lat_flip [simp]: "set (lat_flip lats) = {0..<length lats}"
  by (simp add: lat_flip_def)

lemma process_Inr_D:
  assumes "process ds = Inr out"
  shows "metadata ds = Inr (metadata_json out)"
    and "length (ds_times ds) \<le> length (ds_sst ds)"
    and "sst_data_bin out =
           tofile (map (\<lambda>t. map (\<lambda>i. map (\<lambda>j. encode_cell (ds_sst ds ! t ! i ! j))
                  (lon_sort (ds_lons ds))) (lat_flip (ds_lats ds)))
             [0..<length (ds_times ds)])"
proof -
  let ?lo = "lon_sort (ds_lons ds)" and ?la = "lat_flip (ds_lats ds)"
  from assms obtain md frames binary_data where
    md: "metadata ds = Inr md" and
    fr: "take_idx (ds_sst ds) [0..<length (ds_times ds)] = Inr frames" and
    bd: "sequence_err (map (process_frame ?lo ?la) frames) = Inr binary_data" and
    out: "out = \<lparr>metadata_json = md, sst_data_bin = tofile binary_data\<rparr>"
    by (auto simp: process_def bind_err_Inr)
  from md out show "metadata ds = Inr (metadata_json out)" by simp
  from fr have rng: "\<forall>t\<in>set [0..<length (ds_times ds)]. t < length (ds_sst ds)"
    and frames: "frames = map (\<lambda>t. ds_sst ds ! t) [0..<length (ds_times ds)]"
    by (simp_all add: take_idx_Inr)
  from rng show "length (ds_times ds) \<le> length (ds_sst ds)"
    by (cases "length (ds_times ds)") auto
  have len: "length binary_data = length frames" using bd by (rule sequence_err_map_eq)
  have "binary_data ! k = map (\<lambda>i. map (\<lambda>j. encode_cell (frames ! k ! i ! j)) ?lo) ?la"
    if "k < length frames" for k
  proof -
    from bd that have "process_frame ?lo ?la (frames ! k) = Inr (binary_data ! k)"
      by (rule sequence_err_map_eq)
    then show ?thesis by (rule process_frame_Inr)
  qed
  with len have "binary_data =
      map (\<lambda>f. map (\<lambda>i. map (\<lambda>j. encode_cell (f ! i ! j)) ?lo) ?la) frames"
    by (intro nth_equalityI) simp_all
  then show "sst_data_bin out =
           tofile (map (\<lambda>t. map (\<lambda>i. map (\<lambda>j. encode_cell (ds_sst ds ! t ! i ! j)) ?lo) ?la)
             [0..<length (ds_times ds)])"
    by (simp add: out frames comp_def)
qed

lemma tofile_length:
  assumes "\<forall>f\<in>set a. length f = n \<and> (\<forall>r\<in>set f. length r = m)"
  shows "length (tofile a) = length a * n * m"
proof -
  have "\<forall>xs\<in>set (map concat a). length xs = n * m"
    using assms by (auto simp: concat_uniform_length)
  then have "length (concat (map concat a)) = length (map concat a) * (n * m)"
    by (rule concat_uniform_length)
  then show ?thesis by (simp add: tofile_def)
qed

lemma tofile_nth:
  assumes u: "\<forall>f\<in>set a. length f = n \<and> (\<forall>r\<in>set f. length r = m)"
    and t: "t < length a" and i: "i < n" and j: "j < m"
  shows "tofile a ! ((t * n + i) * m + j) = a ! t ! i ! j"
proof -
  have un: "\<forall>xs\<in>set (map concat a). length xs = n * m"
    using u by (auto simp: concat_uniform_length)
  have "i * m + j < n * m"
  proof -
    have "i * m + j < i * m + m" using j by simp
    also have "\<dots> = Suc i * m" by simp
    also have "\<dots> \<le> n * m" using i by (intro mult_le_mono1) simp
    finally show ?thesis .
  qed
  with un t have "concat (map concat a) ! (t * (n * m) + (i * m + j)) = map concat a ! t ! (i * m + j)"
    by (intro concat_uniform_nth) simp_all
  also have "\<dots> = concat (a ! t) ! (i * m + j)" using t by simp
  also have "\<dots> = a ! t ! i ! j"
  proof -
    have at: "a ! t \<in> set a" using t by simp
    with u have "\<forall>r\<in>set (a ! t). length r = m" and "i < length (a ! t)"
      using i by simp_all
    then show ?thesis using j by (intro concat_uniform_nth)
  qed
  finally show ?thesis by (simp add: tofile_def algebra_simps)
qed

lemma process_layout:
  assumes "process ds = Inr out"
  shows "length (sst_data_bin out)
           = length (ds_times ds) * length (ds_lats ds) * length (ds_lons ds) \<and>
         (\<forall>t i j. t < length (ds_times ds) \<and> i < length (ds_lats ds) \<and> j < length (ds_lons ds) \<longrightarrow>
            sst_data_bin out ! ((t * length (ds_lats ds) + i) * length (ds_lons ds) + j)
              = encode_cell (ds_sst ds ! t ! (lat_flip (ds_lats ds) ! i) ! (lon_sort (ds_lons ds) ! j)))"
proof -
  let ?lo = "lon_sort (ds_lons ds)" and ?la = "lat_flip (ds_lats ds)"
  let ?a = "map (\<lambda>t. map (\<lambda>i. map (\<lambda>j. encode_cell (ds_sst ds ! t ! i ! j)) ?lo) ?la)
              [0..<length (ds_times ds)]"
  have bin: "sst_data_bin out = tofile ?a" using assms by (rule process_Inr_D)
  have u: "\<forall>f\<in>set ?a. length f = length (ds_lats ds) \<and> (\<forall>r\<in>set f. length r = length (ds_lons ds))"
    by auto
  have "length (tofile ?a) = length ?a * length (ds_lats ds) * length (ds_lons ds)"
    using u by (rule tofile_length)
  then have len: "length (sst_data_bin out)
      = length (ds_times ds) * length (ds_lats ds) * length (ds_lons ds)"
    by (simp add: bin)
  have cell: "sst_data_bin out ! ((t * length (ds_lats ds) + i) * length (ds_lons ds) + j)
      = encode_cell (ds_sst ds ! t ! (?la ! i) ! (?lo ! j))"
    if "t < length (ds_times ds)" "i < length (ds_lats ds)" "j < length (ds_lons ds)" for t i j
  proof -
    have "tofile ?a ! ((t * length (ds_lats ds) + i) * length (ds_lons ds) + j) = ?a ! t ! i ! j"
      using u that by (intro tofile_nth) simp_all
    also have "\<dots> = encode_cell (ds_sst ds ! t ! (?la ! i) ! (?lo ! j))"
      using that by simp
    finally show ?thesis by (simp add: bin)
  qed
  from len cell show ?thesis by blast
qed

lemma py_getitem_0: "a \<noteq> [] \<Longrightarrow> py_getitem a 0 = Inr (a ! 0)"
  by (simp add: py_getitem_def)

lemma py_getitem_1: "2 \<le> length a \<Longrightarrow> py_getitem a 1 = Inr (a ! 1)"
  by (simp add: py_getitem_def)

lemma py_getitem_last: "a \<noteq> [] \<Longrightarrow> py_getitem a (- 1) = Inr (last a)"
proof -
  assume ne: "a \<noteq> []"
  then have "nat (int (length a) + - 1) = length a - 1" by (cases a) simp_all
  with ne show ?thesis by (simp add: py_getitem_def last_conv_nth Suc_le_eq)
qed

lemma py_getitem_0_D: "py_getitem a 0 = Inr v \<Longrightarrow> a \<noteq> []"
  by (auto simp: py_getitem_def split: if_splits)

lemma py_getitem_1_D: "py_getitem a 1 = Inr v \<Longrightarrow> 2 \<le> length a"
  by (auto simp: py_getitem_def split: if_splits)

lemma half_cell_Inr: "2 \<le> length a \<Longrightarrow> half_cell a = Inr (\<bar>a ! 1 - a ! 0\<bar> / 2)"
proof -
  assume l: "2 \<le> length a"
  then have "a \<noteq> []" by auto
  with l show ?thesis by (simp add: half_cell_def py_getitem_0 py_getitem_1)
qed

lemma half_cell_D: "half_cell a = Inr h \<Longrightarrow> 2 \<le> length a"
  by (auto simp: half_cell_def bind_err_Inr dest: py_getitem_1_D)

lemma bounds_Inr:
  assumes "2 \<le> length las" and "2 \<le> length ls"
  shows "bounds las ls = Inr (JObj
       [(''north'', JNum (las ! 0 + \<bar>las ! 1 - las ! 0\<bar> / 2)),
        (''south'', JNum (last las - \<bar>las ! 1 - las ! 0\<bar> / 2)),
        (''west'', JNum (ls ! 0 - \<bar>ls ! 1 - ls ! 0\<bar> / 2)),
        (''east'', JNum (last ls + \<bar>ls ! 1 - ls ! 0\<bar> / 2))])"
proof -
  from assms have "las \<noteq> []" "ls \<noteq> []" by auto
  with assms show ?thesis
    by (simp add: bounds_def half_cell_Inr py_getitem_0 py_getitem_last)
qed

lemma bounds_D: "bounds las ls = Inr b \<Longrightarrow> 2 \<le> length las \<and> 2 \<le> length ls"
  by (auto simp: bounds_def bind_err_Inr dest: half_cell_D)

lemma lons_sorted_Inr:
  "lons_sorted lons = Inr (map (\<lambda>i. lons_converted lons ! i) (lon_sort lons))"
  by (simp add: lons_sorted_def lon_sort_def take_idx_argsort)

lemma lats_sorted_Inr:
  "lats_sorted lats = Inr (map (\<lambda>i. lats ! i) (lat_flip lats))"
  by (simp add: lats_sorted_def take_idx_in_range)

lemma metadata_Inr:
  assumes "ds_times ds \<noteq> []" and "2 \<le> length (ds_lons ds)" and "2 \<le> length (ds_lats ds)"
  defines "ls \<equiv> map (\<lambda>i. lons_converted (ds_lons ds) ! i) (lon_sort (ds_lons ds))"
    and "las \<equiv> map (\<lambda>i. ds_lats ds ! i) (lat_flip (ds_lats ds))"
  shows "metadata ds = Inr (JObj
       [(''nlat'', JInt (int (length (ds_lats ds)))),
        (''nlon'', JInt (int (length (ds_lons ds)))),
        (''ntimes'', JInt (int (length (ds_times ds)))),
        (''times'', JArr (map (\<lambda>t. JStr (take 7 t)) (ds_times ds))),
        (''lats'', JArr (map JNum las)),
        (''lons'', JArr (map JNum ls)),
        (''bounds'', JObj
          [(''north'', JNum (las ! 0 + \<bar>las ! 1 - las ! 0\<bar> / 2)),
           (''south'', JNum (last las - \<bar>las ! 1 - las ! 0\<bar> / 2)),
           (''west'', JNum (ls ! 0 - \<bar>ls ! 1 - ls ! 0\<bar> / 2)),
           (''east'', JNum (last ls + \<bar>ls ! 1 - ls ! 0\<bar> / 2))]),
        (''encoding'', JObj
          [(''min'', JNum (- 2)),
           (''max'', JNum 32),
           (''nodata'', JInt 255),
           (''description'', JStr description)])])"
proof -
  have l: "2 \<le> length las" "2 \<le> length ls" using assms(2,3) by (simp_all add: ls_def las_def)
  have b: "bounds las ls = Inr (JObj
       [(''north'', JNum (las ! 0 + \<bar>las ! 1 - las ! 0\<bar> / 2)),
        (''south'', JNum (last las - \<bar>las ! 1 - las ! 0\<bar> / 2)),
        (''west'', JNum (ls ! 0 - \<bar>ls ! 1 - ls ! 0\<bar> / 2)),
        (''east'', JNum (last ls + \<bar>ls ! 1 - ls ! 0\<bar> / 2))])"
    using l by (rule bounds_Inr)
  have s1: "lons_sorted (ds_lons ds) = Inr ls" unfolding ls_def by (rule lons_sorted_Inr)
  have s2: "lats_sorted (ds_lats ds) = Inr las" unfolding las_def by (rule lats_sorted_Inr)
  show ?thesis
    unfolding metadata_def
    by (simp add: py_getitem_0 [OF assms(1)] py_getitem_last [OF assms(1)] s1 s2 b
        SST_MIN_def SST_MAX_def NODATA_def)
qed

lemma metadata_D:
  assumes "metadata ds = Inr md"
  shows "ds_times ds \<noteq> [] \<and> 2 \<le> length (ds_lons ds) \<and> 2 \<le> length (ds_lats ds)"
proof -
  from assms obtain t b where
    t: "py_getitem (ds_times ds) 0 = Inr t" and
    b: "bounds (map (\<lambda>i. ds_lats ds ! i) (lat_flip (ds_lats ds)))
          (map (\<lambda>i. lons_converted (ds_lons ds) ! i) (lon_sort (ds_lons ds))) = Inr b"
    by (auto simp: metadata_def bind_err_Inr lons_sorted_Inr lats_sorted_Inr)
  from t have "ds_times ds \<noteq> []" by (rule py_getitem_0_D)
  moreover from b have "2 \<le> length (ds_lats ds) \<and> 2 \<le> length (ds_lons ds)"
    by (auto dest: bounds_D)
  ultimately show ?thesis by simp
qed

lemma process_succeeds:
  assumes wf: "wf_dataset ds" and "ds_times ds \<noteq> []"
    and "2 \<le> length (ds_lons ds)" and "2 \<le> length (ds_lats ds)"
  shows "\<exists>out. process ds = Inr out"
proof -
  let ?lo = "lon_sort (ds_lons ds)" and ?la = "lat_flip (ds_lats ds)"
  obtain md where md: "metadata ds = Inr md" using metadata_Inr [OF assms(2-4)] by blast
  have len: "length (ds_times ds) = length (ds_sst ds)" using wf by (simp add: wf_dataset_def)
  have fr: "take_idx (ds_sst ds) [0..<length (ds_times ds)] = Inr (ds_sst ds)"
    unfolding len by (simp add: take_idx_def list_all_iff map_nth)
  have "\<forall>f\<in>set (ds_sst ds). \<exists>rows. process_frame ?lo ?la f = Inr rows"
  proof
    fix f assume "f \<in> set (ds_sst ds)"
    with wf have "length f = length (ds_lats ds)" "\<forall>row\<in>set f. length row = length (ds_lons ds)"
      by (auto simp: wf_dataset_def list_all_iff)
    then show "\<exists>rows. process_frame ?lo ?la f = Inr rows"
      by (intro process_frame_total) simp_all
  qed
  then obtain g where g: "\<forall>f\<in>set (ds_sst ds). process_frame ?lo ?la f = Inr (g f)"
    by metis
  then have "sequence_err (map (process_frame ?lo ?la) (ds_sst ds)) = Inr (map g (ds_sst ds))"
    by (rule sequence_err_map_Inr)
  with md fr show ?thesis by (simp add: process_def)
qed

lemma example_lon_sort: "lon_sort [0, 190] = [1, 0]"
  by (simp add: lon_sort_def lons_converted_def np_where_def argsort_def upt_rec)

lemma example_lat_flip: "lat_flip [- 1, 1] = [1, 0]"
  by (simp add: lat_flip_def argsort_def upt_rec)

lemma example_encode:
  "encode_cell (Fin 15) = 127" "encode_cell NaN = 255"
  "encode_cell (Fin 100) = 254" "encode_cell (Fin (- 5)) = 0"
  by (simp_all add: encode_cell_def scaled_Fin NODATA_def)

lemma example_frame:
  "process_frame (lon_sort [0, 190]) (lat_flip [- 1, 1]) [[Fin 15, NaN], [Fin 100, Fin (- 5)]]
     = Inr [[0, 254], [255, 127]]"
  by (simp add: example_lon_sort example_lat_flip process_frame_def take_idx_def example_encode)

lemma example_metadata:
  "metadata example_ds = Inr (JObj
       [(''nlat'', JInt 2), (''nlon'', JInt 2), (''ntimes'', JInt 1),
        (''times'', JArr [JStr ''1854-01'']),
        (''lats'', JArr [JNum 1, JNum (- 1)]),
        (''lons'', JArr [JNum (- 170), JNum 0]),
        (''bounds'', JObj
          [(''north'', JNum 2), (''south'', JNum (- 2)),
           (''west'', JNum (- 255)), (''east'', JNum 85)]),
        (''encoding'', JObj
          [(''min'', JNum (- 2)), (''max'', JNum 32), (''nodata'', JInt 255),
           (''description'', JStr description)])])"
proof -
  have c: "lons_converted [0, 190] = [0, - 170]"
    by (simp add: lons_converted_def np_where_def)
  have "ds_times example_ds \<noteq> []" "2 \<le> length (ds_lons example_ds)"
    "2 \<le> length (ds_lats example_ds)"
    by (simp_all add: example_ds_def)
  from metadata_Inr [OF this] show ?thesis
    by (simp add: example_ds_def example_lon_sort example_lat_flip c)
qed

lemma example_process:
  "\<exists>out. process example_ds = Inr out \<and> sst_data_bin out = [0, 254, 255, 127]"
proof -
  obtain md where md: "metadata example_ds = Inr md" using example_metadata by blast
  have fr: "take_idx (ds_sst example_ds) [0..<length (ds_times example_ds)]
      = Inr [[[Fin 15, NaN], [Fin 100, Fin (- 5)]]]"
    by (simp add: example_ds_def take_idx_def)
  have "process example_ds = Inr \<lparr>metadata_json = md, sst_data_bin = [0, 254, 255, 127]\<rparr>"
    unfolding process_def md fr
    by (simp add: example_ds_def example_frame tofile_def)
  then show ?thesis by force
qed

text \<open>
  C5: the binary file holds exactly ntimes * nlat * nlon bytes, one per cell, in row-major
  order: time outermost, then latitude, then longitude.  The byte at
  \<open>(t * nlat + i) * nlon + j\<close> is the code of the source cell of frame \<open>t\<close> at the
  \<open>i\<close>-th reordered latitude and the \<open>j\<close>-th reordered longitude.
\<close>

theorem binary_layout:
  assumes "process ds = Inr out"
  shows "length (sst_data_bin out)
           = length (ds_times ds) * length (ds_lats ds) * length (ds_lons ds) \<and>
         (\<forall>t i j. t < length (ds_times ds) \<and> i < length (ds_lats ds) \<and> j < length (ds_lons ds) \<longrightarrow>
            sst_data_bin out ! ((t * length (ds_lats ds) + i) * length (ds_lons ds) + j)
              = encode_cell (ds_sst ds ! t ! (lat_flip (ds_lats ds) ! i) ! (lon_sort (ds_lons ds) ! j)))"
  using assms by (rule process_layout)


theorem binary_layout_witness:
  "\<exists>out. process example_ds = Inr out \<and> sst_data_bin out = [0, 254, 255, 127] \<and>
     length (sst_data_bin out)
       = length (ds_times example_ds) * length (ds_lats example_ds) * length (ds_lons example_ds) \<and>
     sst_data_bin out ! ((0 * length (ds_lats example_ds) + 1) * length (ds_lons example_ds) + 0)
       = encode_cell (ds_sst example_ds ! 0 ! (lat_flip (ds_lats example_ds) ! 1)
           ! (lon_sort (ds_lons example_ds) ! 0))"
proof -
  obtain out where p: "process example_ds = Inr out"
    and b: "sst_data_bin out = [0, 254, 255, 127]"
    using example_process by blast
  have r: "0 < length (ds_times example_ds) \<and> 1 < length (ds_lats example_ds)
      \<and> 0 < length (ds_lons example_ds)"
    by (simp add: example_ds_def)
  note L = binary_layout [OF p]
  from L have len: "length (sst_data_bin out)
       = length (ds_times example_ds) * length (ds_lats example_ds) * length (ds_lons example_ds)"
    by (rule conjunct1)
  from L r have cell:
    "sst_data_bin out ! ((0 * length (ds_lats example_ds) + 1) * length (ds_lons example_ds) + 0)
       = encode_cell (ds_sst example_ds ! 0 ! (lat_flip (ds_lats example_ds) ! 1)
           ! (lon_sort (ds_lons example_ds) ! 0))"
    by blast
  from p b len cell show ?thesis by blast
qed


section \<open>Latitude order\<close>

lemma distinct_uminus: "distinct (map uminus lats) = distinct (lats :: real list)"
  by (simp add: distinct_map)

lemma lat_flip_strictly_descending:
  assumes "distinct lats"
  shows "sorted_wrt (>) (map (\<lambda>i. lats ! i) (lat_flip lats))"
proof -
  let ?la = "lat_flip lats"
  have "sorted_wrt (<) (map (\<lambda>i. map uminus lats ! i) (argsort (map uminus lats)))"
    using assms by (intro strict_sorted_argsort) (simp add: distinct_uminus)
  then have "sorted_wrt (\<lambda>x y. map uminus lats ! x < map uminus lats ! y) ?la"
    by (simp add: sorted_wrt_map lat_flip_def)
  then have "sorted_wrt (\<lambda>x y. lats ! x > lats ! y) ?la"
  proof (rule sorted_wrt_mono_rel [rotated])
    fix x y assume "x \<in> set ?la" "y \<in> set ?la"
      and "map uminus lats ! x < map uminus lats ! y"
    then show "lats ! x > lats ! y" by simp
  qed
  then show ?thesis by (simp add: sorted_wrt_map)
qed

lemma lat_flip_reverses:
  assumes "sorted_wrt (<) lats"
  shows "map (\<lambda>i. lats ! i) (lat_flip lats) = rev lats"
proof -
  have d: "distinct lats" using assms by (simp add: strict_sorted_iff)
  let ?s = "map (\<lambda>i. lats ! i) (lat_flip lats)"
  have "sorted_wrt (>) ?s" using d by (rule lat_flip_strictly_descending)
  then have "sorted_wrt (<) (rev ?s)" by (simp add: sorted_wrt_rev)
  then have 1: "sorted (rev ?s)" "distinct (rev ?s)" by (simp_all add: strict_sorted_iff)
  have 2: "sorted lats" using assms by (simp add: strict_sorted_iff)
  have "set ?s = (\<lambda>i. lats ! i) ` {0..<length lats}" by simp
  also have "\<dots> = set (map (\<lambda>i. lats ! i) [0..<length lats])" by simp
  also have "map (\<lambda>i. lats ! i) [0..<length lats] = lats" by (rule map_nth)
  finally have "set ?s = set lats" .
  then have "rev ?s = lats" using 1 2 d by (intro sorted_distinct_set_unique) simp_all
  then show ?thesis by (metis rev_rev_ident)
qed

lemma mset_lat_flip: "mset (lat_flip lats) = mset [0..<length lats]"
  by (simp add: lat_flip_def mset_argsort)

lemma metadata_lats:
  assumes "metadata ds = Inr md"
  shows "obj_get md ''lats''
           = Some (JArr (map JNum (map (\<lambda>i. ds_lats ds ! i) (lat_flip (ds_lats ds)))))"
proof -
  from assms have c: "ds_times ds \<noteq> []" "2 \<le> length (ds_lons ds)" "2 \<le> length (ds_lats ds)"
    using metadata_D by blast+
  from metadata_Inr [OF c] assms show ?thesis by (simp add: obj_get_def)
qed

text \<open>
  C8: for pairwise distinct latitudes \<open>argsort(-lats)\<close> is a permutation of the
  indices that puts the latitudes in strictly descending order, and the binary converter
  applies this one permutation to the \<open>lats\<close> array of the metadata and to the rows of
  every frame.
\<close>

theorem lat_flip_descending:
  assumes "distinct (ds_lats ds)" and "process ds = Inr out"
  shows "mset (lat_flip (ds_lats ds)) = mset [0..<length (ds_lats ds)] \<and>
         sorted_wrt (>) (map (\<lambda>i. ds_lats ds ! i) (lat_flip (ds_lats ds))) \<and>
         obj_get (metadata_json out) ''lats''
           = Some (JArr (map JNum (map (\<lambda>i. ds_lats ds ! i) (lat_flip (ds_lats ds))))) \<and>
         (\<forall>t i j. t < length (ds_times ds) \<and> i < length (ds_lats ds) \<and> j < length (ds_lons ds) \<longrightarrow>
            sst_data_bin out ! ((t * length (ds_lats ds) + i) * length (ds_lons ds) + j)
              = encode_cell (ds_sst ds ! t ! (lat_flip (ds_lats ds) ! i) ! (lon_sort (ds_lons ds) ! j)))"
proof (intro conjI)
  show "mset (lat_flip (ds_lats ds)) = mset [0..<length (ds_lats ds)]" by (rule mset_lat_flip)
  show "sorted_wrt (>) (map (\<lambda>i. ds_lats ds ! i) (lat_flip (ds_lats ds)))"
    using assms(1) by (rule lat_flip_strictly_descending)
  from assms(2) have "metadata ds = Inr (metadata_json out)" by (rule process_Inr_D)
  then show "obj_get (metadata_json out) ''lats''
           = Some (JArr (map JNum (map (\<lambda>i. ds_lats ds ! i) (lat_flip (ds_lats ds)))))"
    by (rule metadata_lats)
  from process_layout [OF assms(2)]
  show "\<forall>t i j. t < length (ds_times ds) \<and> i < length (ds_lats ds) \<and> j < length (ds_lons ds) \<longrightarrow>
            sst_data_bin out ! ((t * length (ds_lats ds) + i) * length (ds_lons ds) + j)
              = encode_cell (ds_sst ds ! t ! (lat_flip (ds_lats ds) ! i) ! (lon_sort (ds_lons ds) ! j))"
    by (rule conjunct2)
qed

theorem lat_flip_descending_witness:
  "distinct (ds_lats example_ds) \<and> lat_flip (ds_lats example_ds) = [1, 0] \<and>
   (\<exists>out. process example_ds = Inr out \<and>
      obj_get (metadata_json out) ''lats'' = Some (JArr [JNum 1, JNum (- 1)]) \<and>
      sst_data_bin out = [0, 254, 255, 127] \<and>
      sst_data_bin out ! ((0 * length (ds_lats example_ds) + 0) * length (ds_lons example_ds) + 1)
        = encode_cell (ds_sst example_ds ! 0 ! (lat_flip (ds_lats example_ds) ! 0)
            ! (lon_sort (ds_lons example_ds) ! 1)))"
proof -
  have h: "distinct (ds_lats example_ds)" by (simp add: example_ds_def)
  have lf: "lat_flip (ds_lats example_ds) = [1, 0]"
    by (simp add: example_ds_def example_lat_flip)
  obtain out where p: "process example_ds = Inr out"
    and b: "sst_data_bin out = [0, 254, 255, 127]"
    using example_process by blast
  note L = lat_flip_descending [OF h p]
  from L have "obj_get (metadata_json out) ''lats''
      = Some (JArr (map JNum (map (\<lambda>i. ds_lats example_ds ! i) (lat_flip (ds_lats example_ds)))))"
    by blast
  then have m: "obj_get (metadata_json out) ''lats'' = Some (JArr [JNum 1, JNum (- 1)])"
    unfolding lf by (simp add: example_ds_def)
  have r: "0 < length (ds_times example_ds) \<and> 0 < length (ds_lats example_ds)
      \<and> 1 < length (ds_lons example_ds)"
    by (simp add: example_ds_def)
  from L r have cell:
    "sst_data_bin out ! ((0 * length (ds_lats example_ds) + 0) * length (ds_lons example_ds) + 1)
        = encode_cell (ds_sst example_ds ! 0 ! (lat_flip (ds_lats example_ds) ! 0)
            ! (lon_sort (ds_lons example_ds) ! 1))"
    by blast
  from h lf p m b cell show ?thesis by blast
qed

section \<open>The metadata\<close>

lemma slice_step_1: "slice_step (Suc 0) a = a"
  by (simp add: slice_step_def map_nth)

lemma py_min_D:
  assumes "py_min xs = Inr m"
  shows "xs \<noteq> [] \<and> m = Min (set xs)"
proof (cases xs)
  case Nil
  with assms show ?thesis by simp
next
  case (Cons a list)
  with assms have "m = fold min list a" by simp
  also have "\<dots> = Min (set (a # list))" by (rule Min.set_eq_fold [symmetric])
  finally show ?thesis using Cons by simp
qed

lemma py_max_D:
  assumes "py_max xs = Inr m"
  shows "xs \<noteq> [] \<and> m = Max (set xs)"
proof (cases xs)
  case Nil
  with assms show ?thesis by simp
next
  case (Cons a list)
  with assms have "m = fold max list a" by simp
  also have "\<dots> = Max (set (a # list))" by (rule Max.set_eq_fold [symmetric])
  finally show ?thesis using Cons by simp
qed

lemma mset_take_argsort: "mset (map (\<lambda>i. a ! i) (argsort a)) = mset a"
proof -
  have "mset (map (\<lambda>i. a ! i) (argsort a)) = image_mset (\<lambda>i. a ! i) (mset (argsort a))"
    by simp
  also have "\<dots> = image_mset (\<lambda>i. a ! i) (mset [0..<length a])"
    by (simp only: mset_argsort)
  also have "\<dots> = mset (map (\<lambda>i. a ! i) [0..<length a])" by simp
  also have "map (\<lambda>i. a ! i) [0..<length a] = a" by (rule map_nth)
  finally show ?thesis .
qed

lemma metadata_of_json_D:
  assumes "metadata_of_json lons lats tms = Inr md"
  defines "ls \<equiv> map (\<lambda>i. lons_converted_json lons ! i) (sort_idx lons)"
  shows "md = JObj
       [(''lons'', JArr (map JNum ls)),
        (''lats'', JArr (map JNum lats)),
        (''times'', JArr (map (\<lambda>t. JStr (take 7 t)) tms)),
        (''bounds'', JObj
          [(''minLon'', JNum (Min (set ls))),
           (''maxLon'', JNum (Max (set ls))),
           (''minLat'', JNum (Min (set lats))),
           (''maxLat'', JNum (Max (set lats)))]),
        (''valueRange'', JObj [(''min'', JInt (- 2)), (''max'', JInt 32)])]"
    and "lons \<noteq> []" and "lats \<noteq> []"
proof -
  from assms(1) obtain a b c d where
    a: "py_min ls = Inr a" and b: "py_max ls = Inr b" and
    c: "py_min lats = Inr c" and d: "py_max lats = Inr d" and
    md: "md = JObj
       [(''lons'', JArr (map JNum ls)),
        (''lats'', JArr (map JNum lats)),
        (''times'', JArr (map (\<lambda>t. JStr (take 7 t)) tms)),
        (''bounds'', JObj
          [(''minLon'', JNum a), (''maxLon'', JNum b),
           (''minLat'', JNum c), (''maxLat'', JNum d)]),
        (''valueRange'', JObj [(''min'', JInt (- 2)), (''max'', JInt 32)])]"
    unfolding metadata_of_json_def lons_sorted_json_Inr bind_err_Inr_simp ls_def [symmetric]
    by (auto simp: bind_err_Inr)
  from a b c d have v: "a = Min (set ls)" "b = Max (set ls)" "c = Min (set lats)" "d = Max (set lats)"
    and ne: "ls \<noteq> []" "lats \<noteq> []"
    by (auto dest: py_min_D py_max_D)
  from md v show "md = JObj
       [(''lons'', JArr (map JNum ls)),
        (''lats'', JArr (map JNum lats)),
        (''times'', JArr (map (\<lambda>t. JStr (take 7 t)) tms)),
        (''bounds'', JObj
          [(''minLon'', JNum (Min (set ls))),
           (''maxLon'', JNum (Max (set ls))),
           (''minLat'', JNum (Min (set lats))),
           (''maxLat'', JNum (Max (set lats)))]),
        (''valueRange'', JObj [(''min'', JInt (- 2)), (''max'', JInt 32)])]"
    by simp
  from ne show "lats \<noteq> []" by simp
  from ne(1) show "lons \<noteq> []" by (auto simp: ls_def sort_idx_def argsort_def)
qed

lemma convert_data_metadata:
  assumes "convert_data ds = Inr jout"
  shows "metadata_of_json (ds_lons ds) (ds_lats ds) (ds_times ds) = Inr (metadata_json_file jout)"
  using assms
  by (auto simp: convert_data_def TIME_STEP_def slice_step_1 Let_def bind_err_Inr)

lemma example_sst_int:
  "sst_int (Fin 15) = 1500" "sst_int NaN = - 999"
  "sst_int (Fin 100) = 10000" "sst_int (Fin (- 5)) = - 500"
  by (simp_all add: sst_int_def np_round_def trunc_def Let_def)

lemma example_sort_idx: "sort_idx [0, 190] = [1, 0]"
  using example_lon_sort by (simp add: lon_sort_eq)

lemma example_convert_frame:
  "convert_frame (sort_idx [0, 190]) [[Fin 15, NaN], [Fin 100, Fin (- 5)]]
     = Inr [[- 999, 1500], [- 500, 10000]]"
  by (simp add: example_sort_idx convert_frame_def take_idx_def example_sst_int)

lemma example_metadata_of_json:
  "metadata_of_json [0, 190] [- 1, 1] [''1854-01-01T00:00:00.000000000''] = Inr example_json_metadata"
proof -
  have c: "lons_converted_json [0, 190] = [0, - 170]" by (simp add: lons_converted_json_def)
  have s: "lons_sorted_json [0, 190] = Inr [- 170, 0]"
    by (simp add: lons_sorted_json_def example_sort_idx c take_idx_def)
  show ?thesis
    unfolding metadata_of_json_def s by (simp add: example_json_metadata_def)
qed

lemma example_convert_data:
  "convert_data example_ds
     = Inr \<lparr>metadata_json_file = example_json_metadata,
            all_data = [[[- 999, 1500], [- 500, 10000]]]\<rparr>"
proof -
  have fr: "take_idx [[[Fin 15, NaN], [Fin 100, Fin (- 5)]]] [0]
      = Inr [[[Fin 15, NaN], [Fin 100, Fin (- 5)]]]"
    by (simp add: take_idx_def)
  show ?thesis
    by (simp add: convert_data_def TIME_STEP_def slice_step_1 Let_def example_ds_def
        example_metadata_of_json fr example_convert_frame)
qed


lemma sorted_lon_sort: "sorted (map (\<lambda>i. lons_converted lons ! i) (lon_sort lons))"
  unfolding lon_sort_def by (rule sorted_argsort)

lemma mset_lon_sort:
  "mset (map (\<lambda>i. lons_converted lons ! i) (lon_sort lons)) = mset (lons_converted lons)"
  unfolding lon_sort_def by (rule mset_take_argsort)

lemma sorted_sort_idx: "sorted (map (\<lambda>i. lons_converted_json lons ! i) (sort_idx lons))"
  unfolding sort_idx_def by (rule sorted_argsort)

lemma mset_sort_idx:
  "mset (map (\<lambda>i. lons_converted_json lons ! i) (sort_idx lons)) = mset (lons_converted_json lons)"
  unfolding sort_idx_def by (rule mset_take_argsort)

lemma process_metadata_fields:
  assumes "process ds = Inr out"
  defines "md \<equiv> metadata_json out"
    and "ls \<equiv> map (\<lambda>i. lons_converted (ds_lons ds) ! i) (lon_sort (ds_lons ds))"
    and "las \<equiv> map (\<lambda>i. ds_lats ds ! i) (lat_flip (ds_lats ds))"
  shows "obj_get md ''nlat'' = Some (JInt (int (length (ds_lats ds))))"
    and "obj_get md ''nlon'' = Some (JInt (int (length (ds_lons ds))))"
    and "obj_get md ''ntimes'' = Some (JInt (int (length (ds_times ds))))"
    and "obj_get md ''times'' = Some (JArr (map (\<lambda>t. JStr (take 7 t)) (ds_times ds)))"
    and "obj_get md ''lats'' = Some (JArr (map JNum las))"
    and "obj_get md ''lons'' = Some (JArr (map JNum ls))"
    and "obj_get md ''bounds'' = Some (JObj
          [(''north'', JNum (las ! 0 + \<bar>las ! 1 - las ! 0\<bar> / 2)),
           (''south'', JNum (last las - \<bar>las ! 1 - las ! 0\<bar> / 2)),
           (''west'', JNum (ls ! 0 - \<bar>ls ! 1 - ls ! 0\<bar> / 2)),
           (''east'', JNum (last ls + \<bar>ls ! 1 - ls ! 0\<bar> / 2))])"
    and "obj_get md ''encoding'' = Some (JObj
          [(''min'', JNum (- 2)), (''max'', JNum 32), (''nodata'', JInt 255),
           (''description'', JStr description)])"
proof -
  from assms(1) have m: "metadata ds = Inr md" unfolding md_def by (rule process_Inr_D)
  then have c: "ds_times ds \<noteq> []" "2 \<le> length (ds_lons ds)" "2 \<le> length (ds_lats ds)"
    using metadata_D by blast+
  note e = metadata_Inr [OF c, folded ls_def las_def]
  from e m have md: "md = JObj
       [(''nlat'', JInt (int (length (ds_lats ds)))),
        (''nlon'', JInt (int (length (ds_lons ds)))),
        (''ntimes'', JInt (int (length (ds_times ds)))),
        (''times'', JArr (map (\<lambda>t. JStr (take 7 t)) (ds_times ds))),
        (''lats'', JArr (map JNum las)),
        (''lons'', JArr (map JNum ls)),
        (''bounds'', JObj
          [(''north'', JNum (las ! 0 + \<bar>las ! 1 - las ! 0\<bar> / 2)),
           (''south'', JNum (last las - \<bar>las ! 1 - las ! 0\<bar> / 2)),
           (''west'', JNum (ls ! 0 - \<bar>ls ! 1 - ls ! 0\<bar> / 2)),
           (''east'', JNum (last ls + \<bar>ls ! 1 - ls ! 0\<bar> / 2))]),
        (''encoding'', JObj
          [(''min'', JNum (- 2)), (''max'', JNum 32), (''nodata'', JInt 255),
           (''description'', JStr description)])]"
    by simp
  show "obj_get md ''nlat'' = Some (JInt (int (length (ds_lats ds))))"
    unfolding md by (simp add: obj_get_def)
  show "obj_get md ''nlon'' = Some (JInt (int (length (ds_lons ds))))"
    unfolding md by (simp add: obj_get_def)
  show "obj_get md ''ntimes'' = Some (JInt (int (length (ds_times ds))))"
    unfolding md by (simp add: obj_get_def)
  show "obj_get md ''times'' = Some (JArr (map (\<lambda>t. JStr (take 7 t)) (ds_times ds)))"
    unfolding md by (simp add: obj_get_def)
  show "obj_get md ''lats'' = Some (JArr (map JNum las))"
    unfolding md by (simp add: obj_get_def)
  show "obj_get md ''lons'' = Some (JArr (map JNum ls))"
    unfolding md by (simp add: obj_get_def)
  show "obj_get md ''bounds'' = Some (JObj
          [(''north'', JNum (las ! 0 + \<bar>las ! 1 - las ! 0\<bar> / 2)),
           (''south'', JNum (last las - \<bar>las ! 1 - las ! 0\<bar> / 2)),
           (''west'', JNum (ls ! 0 - \<bar>ls ! 1 - ls ! 0\<bar> / 2)),
           (''east'', JNum (last ls + \<bar>ls ! 1 - ls ! 0\<bar> / 2))])"
    unfolding md by (simp add: obj_get_def)
  show "obj_get md ''encoding'' = Some (JObj
          [(''min'', JNum (- 2)), (''max'', JNum 32), (''nodata'', JInt 255),
           (''description'', JStr description)])"
    unfolding md by (simp add: obj_get_def)
qed

lemma convert_metadata_fields:
  assumes "convert_data ds = Inr jout"
  defines "md \<equiv> metadata_json_file jout"
    and "ls \<equiv> map (\<lambda>i. lons_converted_json (ds_lons ds) ! i) (sort_idx (ds_lons ds))"
  shows "map fst (obj_fields md) = [''lons'', ''lats'', ''times'', ''bounds'', ''valueRange'']"
    and "obj_get md ''lons'' = Some (JArr (map JNum ls))"
    and "obj_get md ''lats'' = Some (JArr (map JNum (ds_lats ds)))"
    and "obj_get md ''times'' = Some (JArr (map (\<lambda>t. JStr (take 7 t)) (ds_times ds)))"
    and "obj_get md ''bounds'' = Some (JObj
          [(''minLon'', JNum (Min (set ls))), (''maxLon'', JNum (Max (set ls))),
           (''minLat'', JNum (Min (set (ds_lats ds)))),
           (''maxLat'', JNum (Max (set (ds_lats ds))))])"
    and "obj_get md ''valueRange'' = Some (JObj [(''min'', JInt (- 2)), (''max'', JInt 32)])"
proof -
  from assms(1) have "metadata_of_json (ds_lons ds) (ds_lats ds) (ds_times ds) = Inr md"
    unfolding md_def by (rule convert_data_metadata)
  then have md: "md = JObj
       [(''lons'', JArr (map JNum ls)),
        (''lats'', JArr (map JNum (ds_lats ds))),
        (''times'', JArr (map (\<lambda>t. JStr (take 7 t)) (ds_times ds))),
        (''bounds'', JObj
          [(''minLon'', JNum (Min (set ls))),
           (''maxLon'', JNum (Max (set ls))),
           (''minLat'', JNum (Min (set (ds_lats ds)))),
           (''maxLat'', JNum (Max (set (ds_lats ds))))]),
        (''valueRange'', JObj [(''min'', JInt (- 2)), (''max'', JInt 32)])]"
    unfolding ls_def by (rule metadata_of_json_D)
  show "map fst (obj_fields md) = [''lons'', ''lats'', ''times'', ''bounds'', ''valueRange'']"
    unfolding md by simp
  show "obj_get md ''lons'' = Some (JArr (map JNum ls))"
    unfolding md by (simp add: obj_get_def)
  show "obj_get md ''lats'' = Some (JArr (map JNum (ds_lats ds)))"
    unfolding md by (simp add: obj_get_def)
  show "obj_get md ''times'' = Some (JArr (map (\<lambda>t. JStr (take 7 t)) (ds_times ds)))"
    unfolding md by (simp add: obj_get_def)
  show "obj_get md ''bounds'' = Some (JObj
          [(''minLon'', JNum (Min (set ls))), (''maxLon'', JNum (Max (set ls))),
           (''minLat'', JNum (Min (set (ds_lats ds)))),
           (''maxLat'', JNum (Max (set (ds_lats ds))))])"
    unfolding md by (simp add: obj_get_def)
  show "obj_get md ''valueRange'' = Some (JObj [(''min'', JInt (- 2)), (''max'', JInt 32)])"
    unfolding md by (simp add: obj_get_def)
qed



section \<open>The sentinel in the file\<close>

text \<open>
  C2: in the binary converter a cell is encoded as the sentinel 255 if and only if the
  source cell is NaN, every cell that is not NaN is encoded as a value from 0 to 254,
  and so a byte of the file is 255 if and only if the source cell it stands for is NaN.
\<close>

theorem sentinel_iff_nan:
  "(encode_cell c = NODATA \<longleftrightarrow> c = NaN) \<and>
   (c \<noteq> NaN \<longrightarrow> unat (encode_cell c) \<le> 254) \<and>
   (process ds = Inr out \<longrightarrow>
      (\<forall>t i j. t < length (ds_times ds) \<and> i < length (ds_lats ds) \<and> j < length (ds_lons ds) \<longrightarrow>
         (sst_data_bin out ! ((t * length (ds_lats ds) + i) * length (ds_lons ds) + j) = NODATA
            \<longleftrightarrow> ds_sst ds ! t ! (lat_flip (ds_lats ds) ! i) ! (lon_sort (ds_lons ds) ! j) = NaN)))"
proof (intro conjI impI allI)
  show "(encode_cell c = NODATA) = (c = NaN)"
    using encode_cell_sentinel [of c] by (rule conjunct1)
  show "unat (encode_cell c) \<le> 254" if "c \<noteq> NaN"
    using encode_cell_sentinel [of c] that by simp
  fix t i j
  assume p: "process ds = Inr out"
    and r: "t < length (ds_times ds) \<and> i < length (ds_lats ds) \<and> j < length (ds_lons ds)"
  let ?c = "ds_sst ds ! t ! (lat_flip (ds_lats ds) ! i) ! (lon_sort (ds_lons ds) ! j)"
  from process_layout [OF p] r
  have "sst_data_bin out ! ((t * length (ds_lats ds) + i) * length (ds_lons ds) + j)
      = encode_cell ?c"
    by simp
  moreover have "(encode_cell ?c = NODATA) = (?c = NaN)"
    using encode_cell_sentinel [of ?c] by (rule conjunct1)
  ultimately show
    "(sst_data_bin out ! ((t * length (ds_lats ds) + i) * length (ds_lons ds) + j) = NODATA)
       = (?c = NaN)"
    by simp
qed

theorem sentinel_iff_nan_witness:
  "encode_cell NaN = NODATA \<and> encode_cell (Fin 15) \<noteq> NODATA \<and>
   unat (encode_cell (Fin 15)) \<le> 254 \<and>
   (\<exists>out. process example_ds = Inr out \<and> sst_data_bin out = [0, 254, 255, 127] \<and>
      ds_sst example_ds ! 0 ! (lat_flip (ds_lats example_ds) ! 1)
        ! (lon_sort (ds_lons example_ds) ! 0) = NaN \<and>
      sst_data_bin out
        ! ((0 * length (ds_lats example_ds) + 1) * length (ds_lons example_ds) + 0) = NODATA)"
proof -
  obtain out where p: "process example_ds = Inr out"
    and b: "sst_data_bin out = [0, 254, 255, 127]"
    using example_process by blast
  have n: "Fin 15 \<noteq> NaN" by simp
  note A = sentinel_iff_nan [of NaN example_ds out]
  note B = sentinel_iff_nan [of "Fin 15" example_ds out]
  from A have 1: "encode_cell NaN = NODATA" by simp
  from B have 2: "encode_cell (Fin 15) \<noteq> NODATA" by simp
  from B n have 3: "unat (encode_cell (Fin 15)) \<le> 254" by blast
  have src: "ds_sst example_ds ! 0 ! (lat_flip (ds_lats example_ds) ! 1)
        ! (lon_sort (ds_lons example_ds) ! 0) = NaN"
    by (simp add: example_ds_def example_lat_flip example_lon_sort)
  have r: "0 < length (ds_times example_ds) \<and> 1 < length (ds_lats example_ds)
      \<and> 0 < length (ds_lons example_ds)"
    by (simp add: example_ds_def)
  note F = A [THEN conjunct2, THEN conjunct2, THEN mp, OF p]
  from F r src have 4: "sst_data_bin out
        ! ((0 * length (ds_lats example_ds) + 1) * length (ds_lons example_ds) + 0) = NODATA"
    by blast
  have "\<exists>out. process example_ds = Inr out \<and> sst_data_bin out = [0, 254, 255, 127] \<and>
      ds_sst example_ds ! 0 ! (lat_flip (ds_lats example_ds) ! 1)
        ! (lon_sort (ds_lons example_ds) ! 0) = NaN \<and>
      sst_data_bin out
        ! ((0 * length (ds_lats example_ds) + 1) * length (ds_lons example_ds) + 0) = NODATA"
  proof (intro exI conjI)
    show "process example_ds = Inr out" by (rule p)
    show "sst_data_bin out = [0, 254, 255, 127]" by (rule b)
    show "ds_sst example_ds ! 0 ! (lat_flip (ds_lats example_ds) ! 1)
        ! (lon_sort (ds_lons example_ds) ! 0) = NaN" by (rule src)
    show "sst_data_bin out
        ! ((0 * length (ds_lats example_ds) + 1) * length (ds_lons example_ds) + 0) = NODATA"
      by (rule 4)
  qed
  with 1 2 3 show ?thesis by (intro conjI)
qed

end
